theory Spec2Isabelle
  imports Main "HOL-Library.Sublist"
begin

section \<open>The bounded cache\<close>

text \<open>
  \<^verbatim>\<open>lib/api.js\<close> keeps every fetched text and every rendered page in one cache object,
  built in \<^verbatim>\<open>startup\<close>:
  \<^verbatim>\<open>this.cache = new LRU({ maxAge: 86400, maxItems: 5000, maxBytes: 1024 * 1024 * 50 })\<close>.
  The class \<^verbatim>\<open>LRU\<close> is the package \<^verbatim>\<open>pixl-cache\<close>, which \<^verbatim>\<open>api.js\<close> requires; its source is
  not part of \<^verbatim>\<open>src/\<close>. The cache below is therefore written from the specification
  (sections 3 and 4.1), and the configuration from the call in \<^verbatim>\<open>startup\<close>.
  Times are seconds, sizes are bytes; a payload is a \<^typ>\<open>string\<close>, one byte per character.
\<close>

record cache_config =
  maxAge :: nat
  maxItems :: nat
  maxBytes :: nat

text \<open>The configuration of \<^verbatim>\<open>startup\<close> (api.js, lines 38 to 42).\<close>

definition startup_config :: cache_config where
  "startup_config = \<lparr> maxAge = 86400, maxItems = 5000, maxBytes = 1024 * 1024 * 50 \<rparr>"

text \<open>
  Modelled from the spec: the cache entry of \<^verbatim>\<open>pixl-cache\<close> (section 3, "Cache Entry"):
  key, value, size in bytes, insertion/access timestamp, expiry deadline.
\<close>

record cache_item =
  item_key :: string
  item_value :: string
  item_len :: nat
  item_stamp :: nat
  item_expires :: nat

text \<open>A cache is the list of its entries, the most recently used first.\<close>

type_synonym cache = "cache_item list"

text \<open>
  Modelled from the spec: "an entry older than its expiry deadline is treated as
  absent"; \<open>has(key)\<close> "returns false once the entry's TTL has elapsed".
\<close>

definition expired :: "nat \<Rightarrow> cache_item \<Rightarrow> bool" where
  "expired now e = (item_expires e \<le> now)"

definition lookup_item :: "cache \<Rightarrow> string \<Rightarrow> cache_item option" where
  "lookup_item c k = find (\<lambda>e. item_key e = k) c"

text \<open>
  Modelled from the spec: \<open>has(key) -> bool\<close>, "true iff an unexpired entry exists for
  key".
\<close>

definition cache_has :: "nat \<Rightarrow> cache \<Rightarrow> string \<Rightarrow> bool" where
  "cache_has now c k =
     (case lookup_item c k of None \<Rightarrow> False | Some e \<Rightarrow> \<not> expired now e)"

text \<open>
  Modelled from the spec: \<open>get(key) -> value\<close>, "returns the cached value if present
  and unexpired; the lookup refreshes recency for LRU purposes. Undefined/absent if
  missing". The result is the value (\<open>None\<close> for undefined) and the cache after the call.
\<close>

definition cache_get :: "nat \<Rightarrow> cache \<Rightarrow> string \<Rightarrow> string option \<times> cache" where
  "cache_get now c k =
     (case lookup_item c k of
        None \<Rightarrow> (None, c)
      | Some e \<Rightarrow>
          if expired now e then (None, c)
          else (Some (item_value e),
                e\<lparr>item_stamp := now\<rparr> # filter (\<lambda>x. item_key x \<noteq> k) c))"

definition total_bytes :: "cache \<Rightarrow> nat" where
  "total_bytes c = sum_list (map item_len c)"

text \<open>Both budgets of the configuration are respected.\<close>

definition within_budget :: "cache_config \<Rightarrow> cache \<Rightarrow> bool" where
  "within_budget cfg c = (length c \<le> maxItems cfg \<and> total_bytes c \<le> maxBytes cfg)"

text \<open>
  Modelled from the spec: the eviction victim. "evict least-recently-used entries",
  "(expired ones first)": the least recently used of the expired entries when there is
  one, the least recently used entry otherwise.
\<close>

definition evict_one :: "nat \<Rightarrow> cache \<Rightarrow> cache" where
  "evict_one now c =
     (case find (expired now) (rev c) of
        Some e \<Rightarrow> remove1 e c
      | None \<Rightarrow> butlast c)"

lemma length_evict_one [termination_simp]:
  "c \<noteq> [] \<Longrightarrow> length (evict_one now c) < length c"
proof (cases "find (expired now) (rev c)")
  case None
  assume "c \<noteq> []"
  with None show ?thesis by (simp add: evict_one_def)
next
  case (Some e)
  then obtain i where "i < length (rev c)" and "rev c ! i = e"
    by (auto simp: find_Some_iff)
  then have "e \<in> set (rev c)"
    by (metis nth_mem)
  then have "e \<in> set c"
    by simp
  then have "length (remove1 e c) < length c"
    using length_pos_if_in_set [of e c] by (simp add: length_remove1)
  with Some show ?thesis
    by (simp add: evict_one_def)
qed

text \<open>
  Modelled from the spec: "when an insert would breach either budget, evict
  least-recently-used entries until it fits", and "an oversized single value that alone
  exceeds the byte budget is simply stored and may immediately evict everything else".
  \<open>new\<close> is the entry being inserted, \<open>others\<close> the rest of the cache.
\<close>

function evict :: "cache_config \<Rightarrow> nat \<Rightarrow> cache_item \<Rightarrow> cache \<Rightarrow> cache" where
  "evict cfg now new others =
     (if within_budget cfg (new # others) \<or> others = [] then new # others
      else evict cfg now new (evict_one now others))"
  by pat_completeness auto
termination
  by (relation "measure (\<lambda>(cfg, now, new, others). length others)")
     (auto simp: length_evict_one)

declare evict.simps [simp del]

text \<open>
  Modelled from the spec: \<open>set(key, value)\<close> "inserts/replaces an entry, stamping the
  current time and computed byte size of value. Triggers eviction of
  least-recently-used entries (expired ones first) if the insert would exceed the max
  item count or max byte budget. Default TTL from configuration".
\<close>

definition cache_set :: "cache_config \<Rightarrow> nat \<Rightarrow> cache \<Rightarrow> string \<Rightarrow> string \<Rightarrow> cache" where
  "cache_set cfg now c k v =
     evict cfg now
       \<lparr> item_key = k, item_value = v, item_len = length v,
         item_stamp = now, item_expires = now + maxAge cfg \<rparr>
       (filter (\<lambda>x. item_key x \<noteq> k) c)"

section \<open>Text and regular expressions\<close>

text \<open>
  A JavaScript string is modelled as a \<^typ>\<open>string\<close>: the texts are read as ASCII, one
  character per code unit. The character classes are those of the regular expressions
  of \<^verbatim>\<open>api.js\<close>, restricted to ASCII: \<^verbatim>\<open>\w\<close> is a letter, a digit or the underscore,
  \<^verbatim>\<open>\s\<close> is a space, a tab, a line feed, a vertical tab, a form feed or a carriage
  return, and \<^verbatim>\<open>.\<close> is any character but a line terminator.
\<close>

definition is_word :: "char \<Rightarrow> bool" where
  "is_word c =
     (c \<in> set ''abcdefghijklmnopqrstuvwxyzABCDEFGHIJKLMNOPQRSTUVWXYZ0123456789_'')"

definition is_space :: "char \<Rightarrow> bool" where
  "is_space c = (c \<in> set [CHR '' '', CHR 0x09, CHR 0x0A, CHR 0x0B, CHR 0x0C, CHR 0x0D])"

definition is_line_terminator :: "char \<Rightarrow> bool" where
  "is_line_terminator c = (c = CHR 0x0A \<or> c = CHR 0x0D)"

text \<open>\<^verbatim>\<open>toLowerCase\<close> and \<^verbatim>\<open>toUpperCase\<close> on one ASCII character.\<close>

definition to_lower :: "char \<Rightarrow> char" where
  "to_lower c =
     (case map_of (zip ''ABCDEFGHIJKLMNOPQRSTUVWXYZ'' ''abcdefghijklmnopqrstuvwxyz'') c of
        Some d \<Rightarrow> d
      | None \<Rightarrow> c)"

definition to_upper :: "char \<Rightarrow> char" where
  "to_upper c =
     (case map_of (zip ''abcdefghijklmnopqrstuvwxyz'' ''ABCDEFGHIJKLMNOPQRSTUVWXYZ'') c of
        Some d \<Rightarrow> d
      | None \<Rightarrow> c)"

text \<open>
  \<open>strip_prefix p s\<close> matches the literal \<open>p\<close> at the start of \<open>s\<close> and returns what
  follows it.
\<close>

fun strip_prefix :: "string \<Rightarrow> string \<Rightarrow> string option" where
  "strip_prefix [] s = Some s"
| "strip_prefix (p # ps) [] = None"
| "strip_prefix (p # ps) (c # cs) = (if p = c then strip_prefix ps cs else None)"

lemma strip_prefix_Some: "strip_prefix p s = Some r \<longleftrightarrow> s = p @ r"
  by (induction p s rule: strip_prefix.induct) auto

lemma strip_prefix_length: "strip_prefix p s = Some r \<Longrightarrow> length r \<le> length s"
  by (simp add: strip_prefix_Some)

subsection \<open>The word count of an article (api.js, line 76)\<close>

text \<open>
  \<^verbatim>\<open>text.replace(/<.+?>/g, '')\<close>. At a \<^verbatim>\<open><\<close>, the lazy \<^verbatim>\<open>.+?\<close> takes one character
  that is no line terminator, then as few more as it needs to reach a \<^verbatim>\<open>>\<close>; a line
  terminator before that \<^verbatim>\<open>>\<close> makes the match fail at this \<^verbatim>\<open><\<close>. \<open>match_tag s\<close> is
  what follows the match when the expression matches at the start of \<open>s\<close>.
\<close>

fun until_gt :: "string \<Rightarrow> string option" where
  "until_gt [] = None"
| "until_gt (c # cs) =
     (if c = CHR ''>'' then Some cs
      else if is_line_terminator c then None
      else until_gt cs)"

definition match_tag :: "string \<Rightarrow> string option" where
  "match_tag s =
     (case s of
        c0 # c1 # cs \<Rightarrow>
          if c0 = CHR ''<'' \<and> \<not> is_line_terminator c1 then until_gt cs else None
      | _ \<Rightarrow> None)"

lemma until_gt_length: "until_gt s = Some r \<Longrightarrow> length r < length s"
  by (induction s) (auto split: if_splits)

lemma match_tag_length: "match_tag s = Some r \<Longrightarrow> length r < length s"
  by (auto simp: match_tag_def split: list.splits if_splits dest: until_gt_length)

text \<open>
  A global \<^verbatim>\<open>replace\<close> tries the expression at each position from the left; after a
  match it goes on behind the match, after a failure one character further.
\<close>

function strip_tags :: "string \<Rightarrow> string" where
  "strip_tags [] = []"
| "strip_tags (c # cs) =
     (case match_tag (c # cs) of
        Some rest \<Rightarrow> strip_tags rest
      | None \<Rightarrow> c # strip_tags cs)"
  by pat_completeness auto
termination
  by (relation "measure length") (auto dest: match_tag_length)

text \<open>
  \<^verbatim>\<open>.replace(/```[\S\s]+?```/g, '')\<close>: an opening fence, at least one character of any
  kind, and the first closing fence after it.
\<close>

fun until_fence :: "string \<Rightarrow> string option" where
  "until_fence [] = None"
| "until_fence (c # cs) =
     (case strip_prefix ''```'' (c # cs) of
        Some rest \<Rightarrow> Some rest
      | None \<Rightarrow> until_fence cs)"

definition match_fence :: "string \<Rightarrow> string option" where
  "match_fence s =
     (case strip_prefix ''```'' s of
        None \<Rightarrow> None
      | Some [] \<Rightarrow> None
      | Some (c # cs) \<Rightarrow> until_fence cs)"

lemma until_fence_length: "until_fence s = Some r \<Longrightarrow> length r < length s"
proof (induction s)
  case Nil
  then show ?case by simp
next
  case (Cons c cs)
  show ?case
  proof (cases "strip_prefix ''```'' (c # cs)")
    case None
    with Cons show ?thesis by auto
  next
    case (Some rest)
    then have "c # cs = ''```'' @ rest"
      by (simp only: strip_prefix_Some)
    then have "length (c # cs) = 3 + length rest"
      by simp
    with Some Cons.prems show ?thesis by simp
  qed
qed

lemma match_fence_length: "match_fence s = Some r \<Longrightarrow> length r < length s"
proof -
  assume m: "match_fence s = Some r"
  then obtain c cs where s: "strip_prefix ''```'' s = Some (c # cs)" and u: "until_fence cs = Some r"
    by (auto simp: match_fence_def split: option.splits list.splits)
  from s have "length (c # cs) \<le> length s"
    by (rule strip_prefix_length)
  with until_fence_length [OF u] show ?thesis by simp
qed

function strip_fences :: "string \<Rightarrow> string" where
  "strip_fences [] = []"
| "strip_fences (c # cs) =
     (case match_fence (c # cs) of
        Some rest \<Rightarrow> strip_fences rest
      | None \<Rightarrow> c # strip_fences cs)"
  by pat_completeness auto
termination
  by (relation "measure length") (auto dest: match_fence_length)

text \<open>
  \<^verbatim>\<open>.replace(/\[([^\]]+)\]\(([^\)]+)\)/g, '$1')\<close>. Both character classes are greedy and
  exclude the character that must follow them, so each takes the whole run up to that
  character (a shorter run would be followed by a character of the run, not by the
  bracket). \<open>match_link s\<close> is the first group and what follows the match.
\<close>

definition match_link :: "string \<Rightarrow> (string \<times> string) option" where
  "match_link s =
     (case strip_prefix ''['' s of
        None \<Rightarrow> None
      | Some r \<Rightarrow>
          let label = takeWhile (\<lambda>c. c \<noteq> CHR '']'') r in
          if label = [] then None
          else
            (case strip_prefix '']('' (dropWhile (\<lambda>c. c \<noteq> CHR '']'') r) of
               None \<Rightarrow> None
             | Some r' \<Rightarrow>
                 let target = takeWhile (\<lambda>c. c \<noteq> CHR '')'') r' in
                 if target = [] then None
                 else
                   (case dropWhile (\<lambda>c. c \<noteq> CHR '')'') r' of
                      [] \<Rightarrow> None
                    | c # rest \<Rightarrow> Some (label, rest))))"

lemma match_link_length: "match_link s = Some (label, r) \<Longrightarrow> length r < length s"
proof -
  assume m: "match_link s = Some (label, r)"
  then obtain r0 r1 c where
    s: "strip_prefix ''['' s = Some r0" and
    r0: "strip_prefix '']('' (dropWhile (\<lambda>c. c \<noteq> CHR '']'') r0) = Some r1" and
    r1: "dropWhile (\<lambda>c. c \<noteq> CHR '')'') r1 = c # r"
    by (auto simp: match_link_def Let_def split: option.splits if_splits list.splits)
  have "length (c # r) \<le> length r1"
    unfolding r1 [symmetric] by (rule length_dropWhile_le)
  moreover have "length r1 \<le> length (dropWhile (\<lambda>c. c \<noteq> CHR '']'') r0)"
    using r0 by (rule strip_prefix_length)
  moreover have "length (dropWhile (\<lambda>c. c \<noteq> CHR '']'') r0) \<le> length r0"
    by (rule length_dropWhile_le)
  moreover have "length r0 \<le> length s"
    using s by (rule strip_prefix_length)
  ultimately show ?thesis by simp
qed

function collapse_links :: "string \<Rightarrow> string" where
  "collapse_links [] = []"
| "collapse_links (c # cs) =
     (case match_link (c # cs) of
        Some (label, rest) \<Rightarrow> label @ collapse_links rest
      | None \<Rightarrow> c # collapse_links cs)"
  by pat_completeness auto
termination
  by (relation "measure length") (auto dest: match_link_length)

text \<open>
  \<^verbatim>\<open>.match(/\w+/g)\<close>: the list of all matches, each a maximal run of word characters.
  JavaScript returns \<^verbatim>\<open>null\<close> instead of an empty list.
\<close>

function match_words :: "string \<Rightarrow> string list" where
  "match_words [] = []"
| "match_words (c # cs) =
     (if is_word c then takeWhile is_word (c # cs) # match_words (dropWhile is_word cs)
      else match_words cs)"
  by pat_completeness auto
termination
  by (relation "measure length") (auto simp: less_Suc_eq_le length_dropWhile_le)

text \<open>The text left for counting, after the three replacements of line 76.\<close>

definition countable_text :: "string \<Rightarrow> string" where
  "countable_text text = collapse_links (strip_fences (strip_tags text))"

text \<open>
  Values thrown, and errors handed to callbacks. \<open>RequestError\<close> is the error of
  \<^verbatim>\<open>request.get\<close>, \<open>FileError\<close> that of \<^verbatim>\<open>fs.readFile\<close>, \<open>TypeError\<close> the exception of a
  property access on \<^verbatim>\<open>null\<close> or \<^verbatim>\<open>undefined\<close>.
\<close>

datatype js_error = RequestError | FileError | TypeError

text \<open>
  The property \<^verbatim>\<open>words\<close> of line 76: \<^verbatim>\<open>.match(/\w+/g).length\<close>. With no match the
  result of \<^verbatim>\<open>match\<close> is \<^verbatim>\<open>null\<close>, and reading its \<^verbatim>\<open>length\<close> throws.
\<close>

definition words :: "string \<Rightarrow> js_error + nat" where
  "words text =
     (case match_words (countable_text text) of
        [] \<Rightarrow> Inl TypeError
      | m # ms \<Rightarrow> Inr (length (m # ms)))"

subsection \<open>Front matter (api.js, lines 79 to 84)\<close>

text \<open>
  \<^verbatim>\<open>/<\!--\s*(\w+):\s*(.+?)\s*-->/g\<close>. After the value, \<^verbatim>\<open>\s*-->\<close> can only match with
  the whole run of white space taken. The lazy value takes one character that is no
  line terminator and checks for \<^verbatim>\<open>\s*-->\<close>; failing that it takes one more.
  \<open>lazy_value v s\<close> is the value (continuing \<open>v\<close>) and what follows the match.
\<close>

fun lazy_value :: "string \<Rightarrow> string \<Rightarrow> (string \<times> string) option" where
  "lazy_value v [] = None"
| "lazy_value v (c # cs) =
     (if is_line_terminator c then None
      else
        (case strip_prefix ''-->'' (dropWhile is_space cs) of
           Some rest \<Rightarrow> Some (v @ [c], rest)
         | None \<Rightarrow> lazy_value (v @ [c]) cs))"

text \<open>
  The greedy \<^verbatim>\<open>\s*\<close> between the colon and the value first takes all the white space
  there is, \<open>n\<close> characters, and gives one back each time the rest of the expression
  fails (the value may begin with white space).
\<close>

fun comment_value :: "nat \<Rightarrow> string \<Rightarrow> (string \<times> string) option" where
  "comment_value 0 s = lazy_value [] s"
| "comment_value (Suc n) s =
     (case lazy_value [] (drop (Suc n) s) of
        Some r \<Rightarrow> Some r
      | None \<Rightarrow> comment_value n s)"

text \<open>
  \<open>match_comment s\<close>: key, value and what follows the match, when the expression
  matches at the start of \<open>s\<close>. The white space before the key and the key itself are
  whole runs: what must follow each is outside its class.
\<close>

definition match_comment :: "string \<Rightarrow> ((string \<times> string) \<times> string) option" where
  "match_comment s =
     (case strip_prefix ''<!--'' s of
        None \<Rightarrow> None
      | Some r \<Rightarrow>
          let r' = dropWhile is_space r; k = takeWhile is_word r' in
          if k = [] then None
          else
            (case strip_prefix '':'' (dropWhile is_word r') of
               None \<Rightarrow> None
             | Some r'' \<Rightarrow>
                 (case comment_value (length (takeWhile is_space r'')) r'' of
                    None \<Rightarrow> None
                  | Some (v, rest) \<Rightarrow> Some ((k, v), rest))))"

lemma lazy_value_length: "lazy_value v s = Some (x, r) \<Longrightarrow> length r < length s"
proof (induction s arbitrary: v)
  case Nil
  then show ?case by simp
next
  case (Cons c cs)
  show ?case
  proof (cases "strip_prefix ''-->'' (dropWhile is_space cs)")
    case None
    with Cons.prems have "lazy_value (v @ [c]) cs = Some (x, r)"
      by (simp split: if_splits)
    then have "length r < length cs"
      by (rule Cons.IH)
    then show ?thesis by simp
  next
    case (Some rest)
    with Cons.prems have "rest = r"
      by (simp split: if_splits)
    with Some have "length r \<le> length (dropWhile is_space cs)"
      by (simp add: strip_prefix_length)
    also have "\<dots> \<le> length cs"
      by (rule length_dropWhile_le)
    finally show ?thesis by simp
  qed
qed

lemma comment_value_length: "comment_value n s = Some (x, r) \<Longrightarrow> length r < Suc (length s)"
proof (induction n)
  case 0
  then show ?case by (auto dest: lazy_value_length)
next
  case (Suc n)
  show ?case
  proof (cases "lazy_value [] (drop (Suc n) s)")
    case None
    with Suc show ?thesis by simp
  next
    case (Some y)
    with Suc.prems have "lazy_value [] (drop (Suc n) s) = Some (x, r)"
      by simp
    then have "length r < length (drop (Suc n) s)"
      by (rule lazy_value_length)
    then show ?thesis by simp
  qed
qed

lemma match_comment_length: "match_comment s = Some (kv, r) \<Longrightarrow> length r < length s"
proof -
  assume "match_comment s = Some (kv, r)"
  then obtain r0 r1 n v where
    s: "strip_prefix ''<!--'' s = Some r0" and
    r0: "strip_prefix '':'' (dropWhile is_word (dropWhile is_space r0)) = Some r1" and
    r1: "comment_value n r1 = Some (v, r)"
    by (auto simp: match_comment_def Let_def split: option.splits if_splits)
  from s have "length s = 4 + length r0"
    by (simp add: strip_prefix_Some)
  moreover have "length r1 \<le> length (dropWhile is_word (dropWhile is_space r0))"
    using r0 by (rule strip_prefix_length)
  moreover have "length (dropWhile is_word (dropWhile is_space r0)) \<le> length (dropWhile is_space r0)"
    by (rule length_dropWhile_le)
  moreover have "length (dropWhile is_space r0) \<le> length r0"
    by (rule length_dropWhile_le)
  moreover have "length r < Suc (length r1)"
    using r1 by (rule comment_value_length)
  ultimately show ?thesis by simp
qed

text \<open>
  The matches of the expression in a text, from left to right: the pairs of key and
  value the callback of \<^verbatim>\<open>text.replace\<close> is called with.
\<close>

function front_matter :: "string \<Rightarrow> (string \<times> string) list" where
  "front_matter [] = []"
| "front_matter (c # cs) =
     (case match_comment (c # cs) of
        Some (kv, rest) \<Rightarrow> kv # front_matter rest
      | None \<Rightarrow> front_matter cs)"
  by pat_completeness auto
termination
  by (relation "measure length") (auto dest: match_comment_length)

text \<open>
  The values of the properties of an article: a string, a number, \<^verbatim>\<open>NaN\<close>, or a list of
  strings. An article is a JavaScript object, a map from property names to values; a
  name that is not in the map reads as \<^verbatim>\<open>undefined\<close>. (The properties an object
  inherits from \<^verbatim>\<open>Object.prototype\<close> are left out.)
\<close>

datatype js_value = JStr string | JNum int | JNaN | JList "string list"

type_synonym js_object = "string \<rightharpoonup> js_value"

text \<open>
  Lines 79 to 82: the callback sets \<^verbatim>\<open>article[ key.toLowerCase() ] = value\<close> for
  each match, in order.
\<close>

definition assign_field :: "string \<times> string \<Rightarrow> js_object \<Rightarrow> js_object" where
  "assign_field kv article = (case kv of (k, v) \<Rightarrow> article(map to_lower k \<mapsto> JStr v))"

definition assign_front_matter :: "string \<Rightarrow> js_object \<Rightarrow> js_object" where
  "assign_front_matter text article = fold assign_field (front_matter text) article"

text \<open>
  Line 83: \<^verbatim>\<open>Math.floor( (new Date(article.date + ' 00:00:00')).getTime() / 1000 )\<close>.
  \<^verbatim>\<open>Date\<close> belongs to the platform: \<open>getTime s\<close> stands for
  \<^verbatim>\<open>new Date(s).getTime()\<close>, the milliseconds since the epoch of the date \<open>s\<close> read in
  local time, and \<open>None\<close> for the \<^verbatim>\<open>NaN\<close> of an invalid date. At this line
  \<^verbatim>\<open>article.date\<close> is \<^verbatim>\<open>undefined\<close> or a string: the object literal of line 74 sets
  \<^verbatim>\<open>slug\<close> and \<^verbatim>\<open>words\<close> only, and the callback sets strings.
\<close>

definition date_operand :: "js_object \<Rightarrow> string" where
  "date_operand a =
     (case a ''date'' of Some (JStr s) \<Rightarrow> s | _ \<Rightarrow> ''undefined'') @ '' 00:00:00''"

definition article_date :: "(string \<Rightarrow> int option) \<Rightarrow> js_object \<Rightarrow> js_value" where
  "article_date getTime a =
     (case getTime (date_operand a) of
        None \<Rightarrow> JNaN
      | Some ms \<Rightarrow> JNum (ms div 1000))"

text \<open>
  Line 84: \<^verbatim>\<open>article.tags.split(/\,\s*/)\<close>: the pieces between the separators, a comma
  with the white space that follows it. \<open>cur\<close> is the piece being read.
\<close>

function split_tags :: "string \<Rightarrow> string \<Rightarrow> string list" where
  "split_tags cur [] = [cur]"
| "split_tags cur (c # cs) =
     (if c = CHR '','' then cur # split_tags [] (dropWhile is_space cs)
      else split_tags (cur @ [c]) cs)"
  by pat_completeness auto
termination
  by (relation "measure (\<lambda>(cur, s). length s)") (auto simp: less_Suc_eq_le length_dropWhile_le)

text \<open>
  Lines 79 to 84 on the article built so far. \<^verbatim>\<open>article.tags.split\<close> throws when
  \<^verbatim>\<open>article.tags\<close> is \<^verbatim>\<open>undefined\<close> (and a value that is no string has no \<^verbatim>\<open>split\<close>).
\<close>

definition parse_front_matter ::
  "(string \<Rightarrow> int option) \<Rightarrow> string \<Rightarrow> js_object \<Rightarrow> js_error + js_object" where
  "parse_front_matter getTime text article =
     (let a = assign_front_matter text article;
          a' = a(''date'' \<mapsto> article_date getTime a)
      in case a' ''tags'' of
           Some (JStr s) \<Rightarrow> Inr (a'(''tags'' \<mapsto> JList (split_tags [] s)))
         | _ \<Rightarrow> Inl TypeError)"

text \<open>
  Lines 74 to 84: the article of one slug from its fetched text. \<open>Inl\<close> is an exception
  thrown inside the callback of \<^verbatim>\<open>get_cached_url\<close>; \<open>Inr\<close> is the object stored in
  \<^verbatim>\<open>self.articles[slug]\<close>.
\<close>

definition make_article ::
  "(string \<Rightarrow> int option) \<Rightarrow> string \<Rightarrow> string \<Rightarrow> js_error + js_object" where
  "make_article getTime slug text =
     (case words text of
        Inl ex \<Rightarrow> Inl ex
      | Inr n \<Rightarrow>
          parse_front_matter getTime text
            [''slug'' \<mapsto> JStr slug, ''words'' \<mapsto> JNum (int n)])"

section \<open>The blockquote renderer (api.js, lines 18 to 33)\<close>

text \<open>
  \<^verbatim>\<open>marked\<close> calls the renderer with the HTML it has rendered for the content of a
  blockquote; for the source \<^verbatim>\<open>> [!WARNING] Be careful\<close> that is the paragraph
  \<^verbatim>\<open><p>[!WARNING] Be careful</p>\<close> and a line feed. \<^verbatim>\<open>marked\<close> itself is a package
  outside \<^verbatim>\<open>src/\<close>.
\<close>

text \<open>\<^verbatim>\<open>html.trim()\<close>.\<close>

definition trim :: "string \<Rightarrow> string" where
  "trim s = rev (dropWhile is_space (rev (dropWhile is_space s)))"

text \<open>
  \<^verbatim>\<open>.replace(/^<p>([\s\S]+)<\/p>$/, '$1')\<close>: a text that starts with \<^verbatim>\<open><p>\<close>, ends with
  \<^verbatim>\<open></p>\<close> and has at least one character between them loses both; any other text is
  left as it is.
\<close>

definition unwrap_p :: "string \<Rightarrow> string" where
  "unwrap_p s =
     (case strip_prefix ''<p>'' s of
        None \<Rightarrow> s
      | Some r \<Rightarrow>
          if 5 \<le> length r \<and> drop (length r - 4) r = ''</p>'' then take (length r - 4) r
          else s)"

text \<open>
  \<^verbatim>\<open>/^\[\!(\w+)\]\s*/\<close>: the keyword, and the text behind the marker and the white space
  that follows it (what \<^verbatim>\<open>html.replace(/^\[\!(\w+)\]\s*/, '')\<close> leaves).
\<close>

definition match_marker :: "string \<Rightarrow> (string \<times> string) option" where
  "match_marker s =
     (case strip_prefix ''[!'' s of
        None \<Rightarrow> None
      | Some r \<Rightarrow>
          let k = takeWhile is_word r in
          if k = [] then None
          else
            (case strip_prefix '']'' (dropWhile is_word r) of
               None \<Rightarrow> None
             | Some r' \<Rightarrow> Some (k, dropWhile is_space r')))"

text \<open>
  Modelled from the spec: \<^verbatim>\<open>Tools.ucfirst\<close> of the package \<^verbatim>\<open>pixl-tools\<close>, which is not
  under \<^verbatim>\<open>src/\<close>: "a title derived from capitalizing the keyword". It is applied to
  the keyword in lower case.
\<close>

definition ucfirst :: "string \<Rightarrow> string" where
  "ucfirst s = (case s of [] \<Rightarrow> [] | c # cs \<Rightarrow> to_upper c # cs)"

definition icons :: "(string \<times> string) list" where
  "icons =
     [(''note'', ''information-outline''), (''tip'', ''lightbulb-on-outline''),
      (''important'', ''alert-decagram''), (''warning'', ''alert-circle''),
      (''caution'', ''fire-alert'')]"

text \<open>
  \<^verbatim>\<open>icons[type]\<close> inside the template string. \<^verbatim>\<open>icons\<close> is an object literal, so the
  lookup also finds what the object inherits from \<^verbatim>\<open>Object.prototype\<close>. The type is a
  run of word characters in lower case; of the inherited names only \<^verbatim>\<open>constructor\<close> and
  \<^verbatim>\<open>__proto__\<close> are of this form (\<^verbatim>\<open>toString\<close>, \<^verbatim>\<open>valueOf\<close>, \<^verbatim>\<open>hasOwnProperty\<close> and the
  others have a capital letter). The first is the function \<^verbatim>\<open>Object\<close> and the second the
  prototype object, and the template string prints them as Node prints a native
  function and a plain object. Every other type that is no key of the table prints as
  \<^verbatim>\<open>undefined\<close>.
\<close>

definition icon_of :: "string \<Rightarrow> string" where
  "icon_of type =
     (case map_of icons type of
        Some i \<Rightarrow> i
      | None \<Rightarrow>
          if type = ''constructor'' then ''function Object() { [native code] }''
          else if type = ''__proto__'' then ''[object Object]''
          else ''undefined'')"

text \<open>The template string of line 29.\<close>

definition blocknote :: "string \<Rightarrow> string \<Rightarrow> string \<Rightarrow> string \<Rightarrow> string" where
  \<open>blocknote type icon title html =
     ''<div class="blocknote '' @ type @ ''"><div class="bn_title"><i class="mdi mdi-'' @ icon @
     ''">&nbsp;</i>'' @ title @ ''</div><div class="bn_content">'' @ html @ ''</div></div>''\<close>

definition blockquote :: "string \<Rightarrow> string" where
  "blockquote html0 =
     (let html = unwrap_p (trim html0) in
      case match_marker html of
        Some (k, html') \<Rightarrow>
          (let type = map to_lower k; title = ucfirst type; icon = icon_of type
           in blocknote type icon title html')
      | None \<Rightarrow> ''<blockquote>'' @ html @ ''</blockquote>'')"

section \<open>Fetching, rendering and caching (api.js, lines 300 to 366)\<close>

text \<open>
  What the operations read from outside the process: the answer of \<^verbatim>\<open>request.get\<close> for
  a URL (an error, or the text of the body; the client is set to turn every status that
  is no success into an error), the answer of \<^verbatim>\<open>fs.readFile\<close> for a path, the clock the
  cache reads (it does not advance within one operation), \<^verbatim>\<open>new Date(s).getTime()\<close>,
  \<^verbatim>\<open>marked.parse\<close> with the options of line 313, and the page template filled with the
  payload of a blog page (from the article index, the slug and the rendered body), which
  is presentation.
\<close>

record env =
  http_get :: "string \<Rightarrow> js_error + string"
  read_file :: "string \<Rightarrow> js_error + string"
  clock :: nat
  date_time :: "string \<Rightarrow> int option"
  marked_parse :: "string \<Rightarrow> string"
  blog_page :: "(string \<rightharpoonup> js_object) \<Rightarrow> string \<Rightarrow> string \<Rightarrow> string"

text \<open>
  The state of the module: \<^verbatim>\<open>this.cache\<close>, \<^verbatim>\<open>this.articles\<close> and the flag
  \<^verbatim>\<open>this.serverConfig.debug\<close>. The index \<^verbatim>\<open>this.articles\<close> is read at the slugs that
  preload has stored; the names that every JavaScript object inherits (\<^verbatim>\<open>constructor\<close>
  and the like), which a lookup in the index also answers, are left out, as they are
  for the articles themselves.
\<close>

record api =
  cache :: cache
  articles :: "string \<rightharpoonup> js_object"
  debug :: bool

text \<open>
  \<^verbatim>\<open>url.match(/\/pixlcore\/blog\/main\/(.+)\.md$/)\<close>. At one position: the literal
  path, then a group that must reach up to a final \<^verbatim>\<open>.md\<close>, so it is all of the rest but
  these three characters, not empty and free of line terminators. \<open>blog_slug\<close> searches
  the positions from the left and returns the group, \<^verbatim>\<open>RegExp.$1\<close>.
\<close>

definition match_blog :: "string \<Rightarrow> string option" where
  "match_blog s =
     (case strip_prefix ''/pixlcore/blog/main/'' s of
        None \<Rightarrow> None
      | Some r \<Rightarrow>
          let g = take (length r - 3) r in
          if 4 \<le> length r \<and> drop (length r - 3) r = ''.md''
             \<and> list_all (\<lambda>c. \<not> is_line_terminator c) g
          then Some g else None)"

fun blog_slug :: "string \<Rightarrow> string option" where
  "blog_slug [] = None"
| "blog_slug (c # cs) =
     (case match_blog (c # cs) of
        Some g \<Rightarrow> Some g
      | None \<Rightarrow> blog_slug cs)"

definition local_file :: "string \<Rightarrow> string" where
  "local_file slug = ''/Users/jhuckaby/git/blog/'' @ slug @ ''.md''"

text \<open>
  A value read with \<^verbatim>\<open>cache.get\<close> right after \<^verbatim>\<open>cache.has\<close> answered true for the same
  key: \<^verbatim>\<open>undefined\<close> does not occur then (lemma \<open>cache_get_has\<close> below).
\<close>

definition cached_text :: "string option \<Rightarrow> string" where
  "cached_text v = (case v of Some t \<Rightarrow> t | None \<Rightarrow> [])"

text \<open>
  \<^verbatim>\<open>get_cached_url\<close> (lines 334 to 366). The result is what the callback receives, an
  error or the text, and the state after the call.
\<close>

definition get_cached_url :: "env \<Rightarrow> api \<Rightarrow> string \<Rightarrow> (js_error + string) \<times> api" where
  "get_cached_url e st url =
     (case (if debug st then blog_slug url else None) of
        Some slug \<Rightarrow> (read_file e (local_file slug), st)
      | None \<Rightarrow>
          if cache_has (clock e) (cache st) url then
            (case cache_get (clock e) (cache st) url of
               (v, c') \<Rightarrow> (Inr (cached_text v), st\<lparr>cache := c'\<rparr>))
          else
            (case http_get e url of
               Inl err \<Rightarrow> (Inl err, st)
             | Inr text \<Rightarrow>
                 (Inr text,
                  st\<lparr>cache := cache_set startup_config (clock e) (cache st) url text\<rparr>)))"

text \<open>\<^verbatim>\<open>get_cached_html\<close> (lines 300 to 332).\<close>

definition get_cached_html :: "env \<Rightarrow> api \<Rightarrow> string \<Rightarrow> (js_error + string) \<times> api" where
  "get_cached_html e st url =
     (let cache_id = ''MARKED:'' @ url in
      if cache_has (clock e) (cache st) cache_id then
        (case cache_get (clock e) (cache st) cache_id of
           (v, c') \<Rightarrow> (Inr (cached_text v), st\<lparr>cache := c'\<rparr>))
      else
        (case get_cached_url e st url of
           (Inl err, st') \<Rightarrow> (Inl err, st')
         | (Inr text, st') \<Rightarrow>
             let html = marked_parse e text in
             if debug st' then (Inr html, st')
             else
               (Inr html,
                st'\<lparr>cache := cache_set startup_config (clock e) (cache st') cache_id html\<rparr>)))"

text \<open>What a handler passes to its callback: status line, headers and body.\<close>

record response =
  status :: string
  headers :: "(string \<times> string) list"
  body :: string

definition article_url :: "string \<Rightarrow> string" where
  "article_url slug = ''https://raw.githubusercontent.com/pixlcore/blog/main/'' @ slug @ ''.md''"

text \<open>\<^verbatim>\<open>handle_blog\<close> (lines 263 to 298).\<close>

definition handle_blog :: "env \<Rightarrow> api \<Rightarrow> string \<Rightarrow> response \<times> api" where
  "handle_blog e st slug =
     (case articles st slug of
        None \<Rightarrow>
          (\<lparr> status = ''404 Not Found'', headers = [],
             body = ''Unable to locate the requested article: '' @ slug \<rparr>, st)
      | Some article \<Rightarrow>
          (case get_cached_html e st (article_url slug) of
             (Inl err, st') \<Rightarrow>
               (\<lparr> status = ''404 Not Found'', headers = [],
                  body = ''Unable to locate the requested file.'' \<rparr>, st')
           | (Inr html, st') \<Rightarrow>
               (\<lparr> status = ''200 OK'',
                  headers = [(''Content-Type'', ''text/html''),
                             (''Cache-Control'', ''public, max-age=86400'')],
                  body = blog_page e (articles st) slug html \<rparr>, st')))"

section \<open>Preloading the articles (api.js, lines 37 to 92)\<close>

text \<open>
  How \<^verbatim>\<open>preloadBlog\<close> ends: its final callback is called without an error, or with the
  error of a fetch, or an exception is thrown inside a fetch callback and reaches no
  callback at all.
\<close>

datatype outcome = Completed | Failed js_error | Thrown js_error

text \<open>
  \<^verbatim>\<open>async.eachLimit( config.articles, 8, ... )\<close> keeps up to eight fetches in flight and
  handles each answer when it arrives; the first error goes to the final callback and
  ends the operation, and so does the final callback without error after the last
  answer. The list \<open>slugs\<close> is the configured list in the order the answers arrive.
\<close>

fun preload_each :: "env \<Rightarrow> api \<Rightarrow> string list \<Rightarrow> outcome \<times> api" where
  "preload_each e st [] = (Completed, st)"
| "preload_each e st (slug # slugs) =
     (case get_cached_url e st (article_url slug) of
        (Inl err, st') \<Rightarrow> (Failed err, st')
      | (Inr text, st') \<Rightarrow>
          (case make_article (date_time e) slug text of
             Inl ex \<Rightarrow> (Thrown ex, st')
           | Inr article \<Rightarrow>
               preload_each e (st'\<lparr>articles := (articles st')(slug \<mapsto> article)\<rparr>) slugs))"

definition preloadBlog :: "env \<Rightarrow> api \<Rightarrow> string list \<Rightarrow> outcome \<times> api" where
  "preloadBlog e st slugs = preload_each e (st\<lparr>articles := Map.empty\<rparr>) slugs"

text \<open>
  \<^verbatim>\<open>startup\<close>: a new, empty cache, then \<^verbatim>\<open>preloadBlog\<close>. \<open>dbg\<close> is the flag of the server
  configuration and \<open>slugs\<close> the list \<^verbatim>\<open>config.articles\<close> (the file \<^verbatim>\<open>config.json\<close> is not
  under \<^verbatim>\<open>src/\<close>).
\<close>

definition startup :: "env \<Rightarrow> bool \<Rightarrow> string list \<Rightarrow> outcome \<times> api" where
  "startup e dbg slugs =
     preloadBlog e \<lparr> cache = [], articles = Map.empty, debug = dbg \<rparr> slugs"

section \<open>Counting words\<close>

text \<open>
  The number of maximal runs of characters with the property \<open>P\<close> in a text; \<open>inside\<close>
  says that the character before the text has the property.
\<close>

fun count_runs :: "(char \<Rightarrow> bool) \<Rightarrow> bool \<Rightarrow> string \<Rightarrow> nat" where
  "count_runs P inside [] = 0"
| "count_runs P inside (c # cs) =
     (if P c then (if inside then 0 else 1) + count_runs P True cs
      else count_runs P False cs)"

section \<open>The word count in words\<close>

text \<open>
  The word count said in words rather than in regular expressions: which spans of a
  text are cut out or replaced, and what is counted in the rest. The code of line 76 is
  compared with it in claim C8. \<open>first_at p s\<close> is the position of the first occurrence
  of \<open>p\<close> in \<open>s\<close>.
\<close>

fun first_at :: "string \<Rightarrow> string \<Rightarrow> nat option" where
  "first_at p [] = (if p = [] then Some 0 else None)"
| "first_at p (c # cs) =
     (if prefix p (c # cs) then Some 0 else map_option Suc (first_at p cs))"

text \<open>
  A span is given by what replaces it and by its length. The span that is cut out as a
  tag starts with \<^verbatim>\<open><\<close>, has one further character, and ends at the first \<^verbatim>\<open>>\<close> after
  that character, provided that no line break comes before this \<^verbatim>\<open>>\<close>. An HTML tag is
  such a span, and so is \<^verbatim>\<open>< 3 then b >\<close>.
\<close>

definition tag_span :: "string \<Rightarrow> (string \<times> nat) option" where
  "tag_span s =
     (if prefix ''<'' s \<and> 2 \<le> length s \<and> \<not> is_line_terminator (s ! 1) then
        map_option (\<lambda>i. ([], i + 3))
          (first_at ''>'' (takeWhile (\<lambda>c. \<not> is_line_terminator c) (drop 2 s)))
      else None)"

text \<open>
  A fenced code block: three backticks, at least one character, and the next three
  backticks after it.
\<close>

definition fence_span :: "string \<Rightarrow> (string \<times> nat) option" where
  "fence_span s =
     (if prefix ''```'' s then map_option (\<lambda>i. ([], i + 7)) (first_at ''```'' (drop 4 s))
      else None)"

text \<open>
  A Markdown link \<^verbatim>\<open>[text](url)\<close>: the text runs up to the first \<^verbatim>\<open>]\<close>, which \<^verbatim>\<open>(\<close>
  follows, and the URL up to the first \<^verbatim>\<open>)\<close>; neither is empty. The link is replaced
  by its text.
\<close>

definition link_span :: "string \<Rightarrow> (string \<times> nat) option" where
  "link_span s =
     (if prefix ''['' s then
        (case first_at '']'' (drop 1 s) of
           None \<Rightarrow> None
         | Some i \<Rightarrow>
             if 0 < i \<and> prefix ''('' (drop (i + 2) s) then
               (case first_at '')'' (drop (i + 3) s) of
                  None \<Rightarrow> None
                | Some j \<Rightarrow> if 0 < j then Some (take i (drop 1 s), i + j + 4) else None)
             else None)
      else None)"

text \<open>
  Going through a text from the left: a span that starts at the current position is
  replaced, and the search goes on behind it; otherwise the character stays.
\<close>

function replace_spans :: "(string \<Rightarrow> (string \<times> nat) option) \<Rightarrow> string \<Rightarrow> string" where
  "replace_spans span_at [] = []"
| "replace_spans span_at (c # cs) =
     (case span_at (c # cs) of
        None \<Rightarrow> c # replace_spans span_at cs
      | Some (out, n) \<Rightarrow>
          if 0 < n then out @ replace_spans span_at (drop n (c # cs))
          else c # replace_spans span_at cs)"
  by pat_completeness auto
termination
  by (relation "measure (\<lambda>(span_at, s). length s)") auto

text \<open>
  The text left for counting: tags cut out first, then fenced code blocks, then links
  collapsed to their texts.
\<close>

definition spec_countable_text :: "string \<Rightarrow> string" where
  "spec_countable_text md =
     replace_spans link_span (replace_spans fence_span (replace_spans tag_span md))"

text \<open>
  The number of words as the code counts: the maximal runs of word characters in the
  text left for counting.
\<close>

definition spec_word_runs :: "string \<Rightarrow> nat" where
  "spec_word_runs md = count_runs is_word False (spec_countable_text md)"

text \<open>
  The word count in the words of the specification (section 4.4): "counting
  whitespace-delimited word tokens", the maximal runs of characters that are no white
  space, in the text left for counting.
\<close>

definition spec_word_count :: "string \<Rightarrow> nat" where
  "spec_word_count md = count_runs (\<lambda>c. \<not> is_space c) False (spec_countable_text md)"

text \<open>
  The property names that the front matter of a text sets: the keys of its matches, in
  lower case.
\<close>

definition front_keys :: "string \<Rightarrow> string list" where
  "front_keys text = map (\<lambda>(k, v). map to_lower k) (front_matter text)"

text \<open>
  The value of the last front-matter comment of a text that sets the property \<open>key\<close>:
  the value of the last match of the expression of line 79 whose key, in lower case, is
  \<open>key\<close>.
\<close>

definition last_comment :: "string \<Rightarrow> string \<Rightarrow> string option" where
  "last_comment text key =
     map_of (rev (map (\<lambda>(k, v). (map to_lower k, v)) (front_matter text))) key"

section \<open>Example inputs\<close>

text \<open>
  The answers of \<^verbatim>\<open>new Date(s).getTime()\<close> in a process whose local time is UTC, for
  the date of the example of the specification; every other text is an invalid date
  here.
\<close>

definition example_getTime :: "string \<Rightarrow> int option" where
  "example_getTime s = (if s = ''2024/01/01 00:00:00'' then Some 1704067200000 else None)"

text \<open>
  What \<^verbatim>\<open>marked.parse\<close> returns for a text that is one line of plain words: the
  paragraph of that line.
\<close>

definition plain_paragraph :: "string \<Rightarrow> string" where
  "plain_paragraph text = ''<p>'' @ text @ ''</p>'' @ [CHR 0x0A]"

text \<open>
  An environment whose network answers as \<open>answers\<close> says and whose files answer as
  \<open>files\<close> says, at time \<open>t\<close>.
\<close>

definition example_env ::
  "(string \<Rightarrow> js_error + string) \<Rightarrow> (string \<Rightarrow> js_error + string) \<Rightarrow> nat \<Rightarrow> env" where
  "example_env answers files t =
     \<lparr> http_get = answers, read_file = files, clock = t, date_time = example_getTime,
       marked_parse = plain_paragraph, blog_page = (\<lambda>index slug html. html) \<rparr>"

definition no_files :: "string \<Rightarrow> js_error + string" where
  "no_files file = Inl FileError"

text \<open>An article source with a summary, an author, tags and one word, and no title and no date.\<close>

definition untitled_source :: string where
  "untitled_source = ''<!-- Summary: Y --> <!-- Author: a --> <!-- Tags: A, B --> Hello''"

text \<open>
  The source of the example in section 8 of the specification, the five comments on one
  line, followed by one word.
\<close>

definition round_trip_source :: string where
  "round_trip_source =
     ''<!-- Title: X --> <!-- Summary: Y --> <!-- Author: a --> <!-- Date: 2024/01/01 --> <!-- Tags: A, B --> Hello''"

text \<open>
  A source with the same five values, written as an author may: one comment a line, in
  another order, keys in other cases, white space left out or added, a comment with a
  further key among them, and an earlier title that the last one replaces.
\<close>

definition reordered_source :: string where
  "reordered_source =
     ''<!-- Title: W -->'' @ [CHR 0x0A] @ ''<!--tags:A, B-->'' @ [CHR 0x0A] @ ''<!-- Note: draft -->''
       @ [CHR 0x0A] @ ''<!-- Date: 2024/01/01 -->'' @ [CHR 0x0A] @ ''<!-- AUTHOR: a -->'' @ [CHR 0x0A]
       @ ''<!-- Summary:   Y   -->'' @ [CHR 0x0A] @ ''<!-- Title: X -->'' @ [CHR 0x0A] @ ''# Hello world''"

section \<open>Auxiliary notions for the claims\<close>

text \<open>
  What \<^verbatim>\<open>get_cached_url\<close> reads from outside the process when the cache does not answer:
  the local file of a blog URL in debug mode, the network otherwise.
\<close>

definition upstream :: "env \<Rightarrow> bool \<Rightarrow> string \<Rightarrow> js_error + string" where
  "upstream e dbg url =
     (case (if dbg then blog_slug url else None) of
        Some slug \<Rightarrow> read_file e (local_file slug)
      | None \<Rightarrow> http_get e url)"

text \<open>Every entry of the cache holds what the network answers for its key.\<close>

definition cache_mirrors :: "env \<Rightarrow> cache \<Rightarrow> bool" where
  "cache_mirrors e c = list_all (\<lambda>x. http_get e (item_key x) = Inr (item_value x)) c"

text \<open>No key of the cache matches the pattern of the blog sources.\<close>

definition no_blog_keys :: "cache \<Rightarrow> bool" where
  "no_blog_keys c = list_all (\<lambda>x. blog_slug (item_key x) = None) c"

text \<open>
  How preload ends when every fetch is answered from outside the process: the answers
  of \<open>upstream\<close> for the slugs in turn, up to the first error of a fetch or the first
  exception of \<open>make_article\<close>.
\<close>

fun preload_outcome :: "env \<Rightarrow> bool \<Rightarrow> string list \<Rightarrow> outcome" where
  "preload_outcome e dbg [] = Completed"
| "preload_outcome e dbg (slug # slugs) =
     (case upstream e dbg (article_url slug) of
        Inl err \<Rightarrow> Failed err
      | Inr md \<Rightarrow>
          (case make_article (date_time e) slug md of
             Inl ex \<Rightarrow> Thrown ex
           | Inr article \<Rightarrow> preload_outcome e dbg slugs))"

text \<open>The URL of a page that is no blog article, as \<^verbatim>\<open>handle_page\<close> builds it.\<close>

definition readme_url :: string where
  "readme_url = ''https://raw.githubusercontent.com/pixlcore/pixl-server/master/README.md''"

text \<open>
  A request for the rendered HTML of a URL is not answered from the cache: there is no
  rendered entry, and the raw text is read from outside, because the URL is a blog
  source in debug mode or because there is no raw entry either.
\<close>

definition reads_upstream :: "env \<Rightarrow> api \<Rightarrow> string \<Rightarrow> bool" where
  "reads_upstream e st url =
     (\<not> cache_has (clock e) (cache st) (''MARKED:'' @ url)
      \<and> ((debug st \<and> blog_slug url \<noteq> None) \<or> \<not> cache_has (clock e) (cache st) url))"

subsection \<open>Facts about the cache\<close>

lemma evict_cases:
  "within_budget cfg (evict cfg now new others) \<or> evict cfg now new others = [new]"
proof (induction cfg now new others rule: evict.induct)
  case (1 cfg now new others)
  show ?case
  proof (cases "within_budget cfg (new # others) \<or> others = []")
    case True
    then show ?thesis by (auto simp: evict.simps [of cfg now new others])
  next
    case False
    with "1" show ?thesis by (simp add: evict.simps [of cfg now new others])
  qed
qed

lemma evict_hd: "\<exists>rest. evict cfg now new others = new # rest \<and> set rest \<subseteq> set others"
proof (induction cfg now new others rule: evict.induct)
  case (1 cfg now new others)
  show ?case
  proof (cases "within_budget cfg (new # others) \<or> others = []")
    case True
    then show ?thesis by (auto simp: evict.simps [of cfg now new others])
  next
    case False
    have sub: "set (evict_one now others) \<subseteq> set others"
      using set_remove1_subset [of _ others]
      by (auto simp: evict_one_def split: option.splits dest: in_set_butlastD)
    from False "1" obtain rest where
      "evict cfg now new (evict_one now others) = new # rest" "set rest \<subseteq> set (evict_one now others)"
      by auto
    with False sub show ?thesis
      by (auto simp: evict.simps [of cfg now new others])
  qed
qed

lemma within_budget_single:
  "1 \<le> maxItems cfg \<Longrightarrow> item_len new \<le> maxBytes cfg \<Longrightarrow> within_budget cfg [new]"
  by (simp add: within_budget_def total_bytes_def)

lemma cache_set_within_budget:
  assumes "1 \<le> maxItems cfg" and "length v \<le> maxBytes cfg"
  shows "within_budget cfg (cache_set cfg now c k v)"
proof -
  let ?new = "\<lparr> item_key = k, item_value = v, item_len = length v,
                 item_stamp = now, item_expires = now + maxAge cfg \<rparr>"
  let ?others = "filter (\<lambda>x. item_key x \<noteq> k) c"
  have "within_budget cfg [?new]"
    using assms by (simp add: within_budget_single)
  with evict_cases [of cfg now ?new ?others] show ?thesis
    by (auto simp: cache_set_def)
qed

lemma lookup_item_key: "lookup_item c k = Some x \<Longrightarrow> item_key x = k \<and> x \<in> set c"
  by (auto simp: lookup_item_def find_Some_iff)

lemma cache_get_has:
  "cache_has t c k \<Longrightarrow> \<exists>x. lookup_item c k = Some x \<and> fst (cache_get t c k) = Some (item_value x)"
  by (auto simp: cache_has_def cache_get_def split: option.splits)

lemma cache_set_hd:
  "\<exists>rest. cache_set cfg t c k v =
      \<lparr> item_key = k, item_value = v, item_len = length v,
        item_stamp = t, item_expires = t + maxAge cfg \<rparr> # rest
    \<and> set rest \<subseteq> set c \<and> (\<forall>x\<in>set rest. item_key x \<noteq> k)"
proof -
  let ?new = "\<lparr> item_key = k, item_value = v, item_len = length v,
                 item_stamp = t, item_expires = t + maxAge cfg \<rparr>"
  obtain rest where r: "evict cfg t ?new (filter (\<lambda>x. item_key x \<noteq> k) c) = ?new # rest"
    and s: "set rest \<subseteq> set (filter (\<lambda>x. item_key x \<noteq> k) c)"
    using evict_hd by blast
  then show ?thesis
    by (auto simp: cache_set_def)
qed

lemma cache_set_lookup_same:
  "lookup_item (cache_set cfg t c k v) k =
     Some \<lparr> item_key = k, item_value = v, item_len = length v,
            item_stamp = t, item_expires = t + maxAge cfg \<rparr>"
  using cache_set_hd [of cfg t c k v] by (auto simp: lookup_item_def)

lemma cache_has_set_later:
  "t' < t + maxAge cfg \<Longrightarrow> cache_has t' (cache_set cfg t c k v) k"
  by (simp add: cache_has_def cache_set_lookup_same expired_def)

lemma cache_get_set_later:
  "t' < t + maxAge cfg \<Longrightarrow> fst (cache_get t' (cache_set cfg t c k v) k) = Some v"
  by (simp add: cache_get_def cache_set_lookup_same expired_def)

section \<open>Facts about the text functions\<close>

lemma count_runs_dropWhile: "count_runs P True s = count_runs P False (dropWhile P s)"
  by (induction s) auto

lemma length_match_words: "length (match_words s) = count_runs is_word False s"
proof (induction s rule: match_words.induct)
  case 1
  then show ?case by simp
next
  case (2 c cs)
  show ?case
  proof (cases "is_word c")
    case True
    with "2" show ?thesis
      by (simp add: count_runs_dropWhile)
  next
    case False
    with "2" show ?thesis by simp
  qed
qed

lemma match_words_empty: "list_all (\<lambda>c. \<not> is_word c) s \<Longrightarrow> match_words s = []"
  by (induction s) auto

lemmas text_eval =
  is_word_def is_space_def is_line_terminator_def match_tag_def match_fence_def
  match_link_def countable_text_def words_def

lemma match_comment_no_opener: "strip_prefix ''<!--'' s = None \<Longrightarrow> match_comment s = None"
  by (simp add: match_comment_def)

lemma strip_prefix_None_if: "\<not> prefix p s \<Longrightarrow> strip_prefix p s = None"
  by (cases "strip_prefix p s") (auto simp: strip_prefix_Some)

lemma front_matter_no_opener: "\<not> sublist ''<!--'' s \<Longrightarrow> front_matter s = []"
proof (induction s)
  case Nil
  then show ?case by simp
next
  case (Cons c cs)
  from Cons.prems have no: "\<not> prefix ''<!--'' (c # cs)" and rest: "\<not> sublist ''<!--'' cs"
    by (auto simp: sublist_Cons_right)
  from no have "match_comment (c # cs) = None"
    by (intro match_comment_no_opener strip_prefix_None_if)
  with Cons.IH [OF rest] show ?case by simp
qed

lemma front_matter_skip:
  "\<not> sublist ''<!--'' pre \<Longrightarrow> front_matter (pre @ CHR ''<'' # s) = front_matter (CHR ''<'' # s)"
proof (induction pre)
  case Nil
  then show ?case by simp
next
  case (Cons c cs)
  from Cons.prems have no: "\<not> prefix ''<!--'' (c # cs)" and rest: "\<not> sublist ''<!--'' cs"
    by (auto simp: sublist_Cons_right)
  have "\<not> prefix ''<!--'' (c # cs @ CHR ''<'' # s)"
  proof
    assume "prefix ''<!--'' (c # cs @ CHR ''<'' # s)"
    then obtain r where r: "c # cs @ CHR ''<'' # s = ''<!--'' @ r"
      by (auto simp: prefix_def)
    show False
    proof (cases cs)
      case Nil
      with r show False by simp
    next
      case c1: (Cons x1 cs1)
      show False
      proof (cases cs1)
        case Nil
        with r c1 show False by simp
      next
        case c2: (Cons x2 cs2)
        show False
        proof (cases cs2)
          case Nil
          with r c1 c2 show False by simp
        next
          case c3: (Cons x3 cs3)
          with r c1 c2 have "c # cs = ''<!--'' @ cs3"
            by simp
          with no show False by (simp add: prefix_def)
        qed
      qed
    qed
  qed
  then have "match_comment (c # cs @ CHR ''<'' # s) = None"
    by (intro match_comment_no_opener strip_prefix_None_if)
  with Cons.IH [OF rest] show ?case by simp
qed

lemmas comment_eval =
  match_comment_def is_word_def is_space_def is_line_terminator_def Let_def

lemma front_matter_title:
  "front_matter (''<!-- Title: X -->'' @ s) = (''Title'', ''X'') # front_matter s"
  by (simp add: comment_eval)

lemma front_matter_summary:
  "front_matter (''<!-- Summary: Y -->'' @ s) = (''Summary'', ''Y'') # front_matter s"
  by (simp add: comment_eval)

lemma front_matter_author:
  "front_matter (''<!-- Author: a -->'' @ s) = (''Author'', ''a'') # front_matter s"
  by (simp add: comment_eval)

lemma front_matter_date:
  "front_matter (''<!-- Date: 2024/01/01 -->'' @ s) = (''Date'', ''2024/01/01'') # front_matter s"
  by (simp add: comment_eval)

lemma front_matter_tags:
  "front_matter (''<!-- Tags: A, B -->'' @ s) = (''Tags'', ''A, B'') # front_matter s"
  by (simp add: comment_eval)

lemma fold_assign_other:
  "key \<notin> set (map (\<lambda>(k, v). map to_lower k) kvs) \<Longrightarrow> fold assign_field kvs a0 key = a0 key"
  by (induction kvs arbitrary: a0) (auto simp: assign_field_def split: prod.splits)

lemma fold_assign_string:
  "key \<in> set (map (\<lambda>(k, v). map to_lower k) kvs) \<Longrightarrow>
   \<exists>v. fold assign_field kvs a0 key = Some (JStr v)"
proof (induction kvs arbitrary: a0)
  case Nil
  then show ?case by simp
next
  case (Cons kv kvs)
  obtain k v where kv: "kv = (k, v)" by (cases kv)
  show ?case
  proof (cases "key \<in> set (map (\<lambda>(k, v). map to_lower k) kvs)")
    case True
    then show ?thesis by (simp add: Cons.IH)
  next
    case False
    with Cons.prems have "map to_lower k = key"
      by (simp add: kv)
    then have "assign_field kv a0 key = Some (JStr v)"
      by (auto simp: kv assign_field_def)
    with fold_assign_other [OF False, of "assign_field kv a0"] show ?thesis
      by simp
  qed
qed

lemma assign_front_matter_missing:
  "key \<notin> set (front_keys text) \<Longrightarrow> assign_front_matter text a0 key = a0 key"
  by (simp add: assign_front_matter_def front_keys_def fold_assign_other)

lemma assign_front_matter_present:
  "key \<in> set (front_keys text) \<Longrightarrow> \<exists>v. assign_front_matter text a0 key = Some (JStr v)"
  unfolding assign_front_matter_def front_keys_def by (rule fold_assign_string)

lemma parse_front_matter_tags:
  assumes "''tags'' \<in> set (front_keys text)"
  shows "\<exists>v. parse_front_matter getTime text a0 =
           Inr ((assign_front_matter text a0)
                  (''date'' \<mapsto> article_date getTime (assign_front_matter text a0),
                   ''tags'' \<mapsto> JList (split_tags [] v)))"
proof -
  from assms obtain v where "assign_front_matter text a0 ''tags'' = Some (JStr v)"
    using assign_front_matter_present by blast
  then show ?thesis
    by (auto simp: parse_front_matter_def Let_def)
qed

lemma parse_front_matter_no_tags:
  "''tags'' \<notin> set (front_keys text) \<Longrightarrow> a0 ''tags'' = None \<Longrightarrow>
   parse_front_matter getTime text a0 = Inl TypeError"
  by (simp add: parse_front_matter_def Let_def assign_front_matter_missing)

lemma date_operand_missing:
  "''date'' \<notin> set (front_keys text) \<Longrightarrow> a0 ''date'' = None \<Longrightarrow>
   date_operand (assign_front_matter text a0) = ''undefined 00:00:00''"
  by (simp add: date_operand_def assign_front_matter_missing)

lemma skip_to_comment:
  assumes "\<not> sublist ''<!--'' pre" and "front_matter (CHR ''<'' # s) = kv # front_matter r"
  shows "front_matter (pre @ CHR ''<'' # s) = kv # front_matter r"
  using front_matter_skip [OF assms(1), of s] assms(2) by (rule trans)

lemma example_front_matter:
  assumes "list_all (\<lambda>s. \<not> sublist ''<!--'' s) [before, gap_a, gap_b, gap_c, gap_d, after]"
  shows "front_matter
           (before @ ''<!-- Title: X -->'' @ gap_a @ ''<!-- Summary: Y -->'' @ gap_b @ ''<!-- Author: a -->''
              @ gap_c @ ''<!-- Date: 2024/01/01 -->'' @ gap_d @ ''<!-- Tags: A, B -->'' @ after) =
         [(''Title'', ''X''), (''Summary'', ''Y''), (''Author'', ''a''),
          (''Date'', ''2024/01/01''), (''Tags'', ''A, B'')]"
proof -
  from assms have s: "\<not> sublist ''<!--'' before" "\<not> sublist ''<!--'' gap_a" "\<not> sublist ''<!--'' gap_b"
    "\<not> sublist ''<!--'' gap_c" "\<not> sublist ''<!--'' gap_d" "\<not> sublist ''<!--'' after"
    by simp_all
  have "front_matter (gap_d @ ''<!-- Tags: A, B -->'' @ after) = [(''Tags'', ''A, B'')]"
    using skip_to_comment [OF s(5) front_matter_tags [of after, simplified append_Cons append_Nil]]
      front_matter_no_opener [OF s(6)]
    by (simp only: append_Cons append_Nil)
  then have "front_matter (gap_c @ ''<!-- Date: 2024/01/01 -->'' @ gap_d @ ''<!-- Tags: A, B -->'' @ after) =
      [(''Date'', ''2024/01/01''), (''Tags'', ''A, B'')]"
    using skip_to_comment [OF s(4) front_matter_date [of "gap_d @ ''<!-- Tags: A, B -->'' @ after",
        simplified append_Cons append_Nil]]
    by (simp only: append_Cons append_Nil)
  then have "front_matter (gap_b @ ''<!-- Author: a -->'' @ gap_c @ ''<!-- Date: 2024/01/01 -->'' @ gap_d
        @ ''<!-- Tags: A, B -->'' @ after) =
      [(''Author'', ''a''), (''Date'', ''2024/01/01''), (''Tags'', ''A, B'')]"
    using skip_to_comment [OF s(3) front_matter_author [of "gap_c @ ''<!-- Date: 2024/01/01 -->'' @ gap_d
        @ ''<!-- Tags: A, B -->'' @ after", simplified append_Cons append_Nil]]
    by (simp only: append_Cons append_Nil)
  then have "front_matter (gap_a @ ''<!-- Summary: Y -->'' @ gap_b @ ''<!-- Author: a -->'' @ gap_c
        @ ''<!-- Date: 2024/01/01 -->'' @ gap_d @ ''<!-- Tags: A, B -->'' @ after) =
      [(''Summary'', ''Y''), (''Author'', ''a''), (''Date'', ''2024/01/01''), (''Tags'', ''A, B'')]"
    using skip_to_comment [OF s(2) front_matter_summary [of "gap_b @ ''<!-- Author: a -->'' @ gap_c
        @ ''<!-- Date: 2024/01/01 -->'' @ gap_d @ ''<!-- Tags: A, B -->'' @ after",
        simplified append_Cons append_Nil]]
    by (simp only: append_Cons append_Nil)
  then show ?thesis
    using skip_to_comment [OF s(1) front_matter_title [of "gap_a @ ''<!-- Summary: Y -->'' @ gap_b
        @ ''<!-- Author: a -->'' @ gap_c @ ''<!-- Date: 2024/01/01 -->'' @ gap_d
        @ ''<!-- Tags: A, B -->'' @ after", simplified append_Cons append_Nil]]
    by (simp only: append_Cons append_Nil)
qed

lemmas article_eval =
  parse_front_matter_def assign_front_matter_def assign_field_def article_date_def
  date_operand_def to_lower_def Let_def

lemma plain_field:
  "field \<in> {''title'', ''summary'', ''author''} \<Longrightarrow>
   [''slug'' \<mapsto> x, ''words'' \<mapsto> y] field = None \<and> field \<noteq> ''date'' \<and> field \<noteq> ''tags''"
  by (elim insertE emptyE) simp_all

lemma fold_assign_last:
  "fold assign_field kvs a0 key =
     (case map_of (rev (map (\<lambda>(k, v). (map to_lower k, v)) kvs)) key of
        Some v \<Rightarrow> Some (JStr v)
      | None \<Rightarrow> a0 key)"
proof (induction kvs arbitrary: a0)
  case Nil
  then show ?case by simp
next
  case (Cons kv kvs)
  obtain k v where kv: "kv = (k, v)" by (cases kv)
  have step: "assign_field kv a0 = a0(map to_lower k \<mapsto> JStr v)"
    by (simp add: kv assign_field_def)
  have "fold assign_field (kv # kvs) a0 key = fold assign_field kvs (a0(map to_lower k \<mapsto> JStr v)) key"
    by (simp add: step)
  also have "\<dots> =
      (case map_of (rev (map (\<lambda>(k, v). (map to_lower k, v)) kvs)) key of
         Some v \<Rightarrow> Some (JStr v)
       | None \<Rightarrow> (a0(map to_lower k \<mapsto> JStr v)) key)"
    by (rule Cons.IH)
  also have "\<dots> =
      (case map_of (rev (map (\<lambda>(k, v). (map to_lower k, v)) (kv # kvs))) key of
         Some v \<Rightarrow> Some (JStr v)
       | None \<Rightarrow> a0 key)"
    by (simp add: kv map_add_def split: option.splits)
  finally show ?case .
qed

lemma assign_front_matter_last:
  "last_comment text key = Some v \<Longrightarrow> assign_front_matter text a0 key = Some (JStr v)"
  by (simp add: assign_front_matter_def last_comment_def fold_assign_last)

lemma round_trip_matches:
  "front_matter round_trip_source =
     [(''Title'', ''X''), (''Summary'', ''Y''), (''Author'', ''a''), (''Date'', ''2024/01/01''),
      (''Tags'', ''A, B'')]"
  by (simp add: round_trip_source_def comment_eval)

lemma reordered_matches:
  "front_matter reordered_source =
     [(''Title'', ''W''), (''tags'', ''A, B''), (''Note'', ''draft''), (''Date'', ''2024/01/01''),
      (''AUTHOR'', ''a''), (''Summary'', ''Y''), (''Title'', ''X'')]"
  by (simp add: reordered_source_def comment_eval)

lemma round_trip_words: "words round_trip_source = Inr 1"
  by (simp add: round_trip_source_def text_eval)

lemma reordered_words: "words reordered_source = Inr 2"
  by (simp add: reordered_source_def text_eval)

subsection \<open>The code counts what the words say\<close>

lemma until_gt_first_at:
  "until_gt cs =
     map_option (\<lambda>i. drop (Suc i) cs)
       (first_at ''>'' (takeWhile (\<lambda>c. \<not> is_line_terminator c) cs))"
  by (induction cs) (auto simp: is_line_terminator_def option.map_comp comp_def)

lemma match_tag_span: "match_tag s = map_option (\<lambda>(out, n). drop n s) (tag_span s)"
proof (cases s)
  case Nil
  then show ?thesis by (simp add: match_tag_def tag_span_def)
next
  case (Cons c0 r)
  show ?thesis
  proof (cases r)
    case Nil
    with Cons show ?thesis by (simp add: match_tag_def tag_span_def)
  next
    case (Cons c1 cs)
    with \<open>s = c0 # r\<close> show ?thesis
      by (auto simp: match_tag_def tag_span_def until_gt_first_at option.map_comp comp_def
          numeral_3_eq_3)
  qed
qed

lemma tag_span_positive: "tag_span s = Some (out, n) \<Longrightarrow> out = [] \<and> 0 < n"
  by (auto simp: tag_span_def split: if_splits)

lemma strip_tags_replace_spans: "strip_tags s = replace_spans tag_span s"
proof (induction s rule: strip_tags.induct)
  case 1
  then show ?case by simp
next
  case (2 c cs)
  show ?case
  proof (cases "tag_span (c # cs)")
    case None
    then have "match_tag (c # cs) = None"
      by (simp add: match_tag_span)
    with None "2.IH" show ?thesis by simp
  next
    case (Some span)
    obtain out n where span: "span = (out, n)" by (cases span)
    from Some span have m: "match_tag (c # cs) = Some (drop n (c # cs))"
      by (simp add: match_tag_span)
    from Some span have "out = [] \<and> 0 < n"
      by (simp add: tag_span_positive)
    with Some span m "2.IH" show ?thesis by simp
  qed
qed

lemma strip_prefix_prefix:
  "strip_prefix p s = (if prefix p s then Some (drop (length p) s) else None)"
proof (cases "strip_prefix p s")
  case None
  then have "\<not> prefix p s"
    by (auto simp: prefix_def strip_prefix_Some [symmetric])
  with None show ?thesis by simp
next
  case (Some r)
  then have "s = p @ r"
    by (simp add: strip_prefix_Some)
  with Some show ?thesis by simp
qed

lemma until_fence_first_at:
  "until_fence cs = map_option (\<lambda>i. drop (i + 3) cs) (first_at ''```'' cs)"
proof (induction cs)
  case Nil
  then show ?case by simp
next
  case (Cons c cs)
  show ?case
  proof (cases "prefix ''```'' (c # cs)")
    case True
    then have "strip_prefix ''```'' (c # cs) = Some (drop 3 (c # cs))"
      by (simp only: strip_prefix_prefix if_True) (simp add: numeral_2_eq_2)
    then have u: "until_fence (c # cs) = Some (drop 3 (c # cs))"
      by (simp only: until_fence.simps option.case)
    from True have f: "first_at ''```'' (c # cs) = Some 0"
      by (simp only: first_at.simps if_True)
    show ?thesis
      unfolding f u by simp
  next
    case False
    then have sp: "strip_prefix ''```'' (c # cs) = None"
      by (simp only: strip_prefix_prefix if_False)
    have u: "until_fence (c # cs) = until_fence cs"
      by (simp only: until_fence.simps sp option.case)
    from False have f: "first_at ''```'' (c # cs) = map_option Suc (first_at ''```'' cs)"
      by (simp only: first_at.simps if_False)
    show ?thesis
      unfolding u f Cons.IH by (simp add: option.map_comp comp_def eval_nat_numeral)
  qed
qed

lemma match_fence_span: "match_fence s = map_option (\<lambda>(out, n). drop n s) (fence_span s)"
proof (cases "prefix ''```'' s")
  case False
  then show ?thesis
    by (simp add: match_fence_def fence_span_def strip_prefix_prefix)
next
  case True
  then obtain r where s: "s = ''```'' @ r"
    by (auto simp: prefix_def)
  show ?thesis
  proof (cases r)
    case Nil
    with s show ?thesis
      by (simp add: match_fence_def fence_span_def)
  next
    case (Cons c cs)
    with s show ?thesis
      by (simp add: match_fence_def fence_span_def until_fence_first_at option.map_comp comp_def
          numeral_3_eq_3 eval_nat_numeral)
  qed
qed

lemma fence_span_positive: "fence_span s = Some (out, n) \<Longrightarrow> out = [] \<and> 0 < n"
  by (auto simp: fence_span_def split: if_splits)

lemma strip_fences_replace_spans: "strip_fences s = replace_spans fence_span s"
proof (induction s rule: strip_fences.induct)
  case 1
  then show ?case by simp
next
  case (2 c cs)
  show ?case
  proof (cases "fence_span (c # cs)")
    case None
    then have "match_fence (c # cs) = None"
      by (simp add: match_fence_span)
    with None "2.IH" show ?thesis by simp
  next
    case (Some span)
    obtain out n where span: "span = (out, n)" by (cases span)
    from Some span have m: "match_fence (c # cs) = Some (drop n (c # cs))"
      by (simp add: match_fence_span)
    from Some span have "out = [] \<and> 0 < n"
      by (simp add: fence_span_positive)
    with Some span m "2.IH" show ?thesis by simp
  qed
qed

lemma first_at_char:
  "first_at [x] s = (if x \<in> set s then Some (length (takeWhile (\<lambda>c. c \<noteq> x) s)) else None)"
  by (induction s) auto


lemma scan_char:
  "dropWhile (\<lambda>c. c \<noteq> x) r =
     (if x \<in> set r then x # drop (Suc (length (takeWhile (\<lambda>c. c \<noteq> x) r))) r else [])"
  by (induction r) auto

lemma match_link_span:
  "match_link s = map_option (\<lambda>(out, n). (out, drop n s)) (link_span s)"
proof (cases "prefix ''['' s")
  case False
  then show ?thesis
    by (simp add: match_link_def link_span_def strip_prefix_prefix)
next
  case True
  then obtain r where s: "s = CHR ''['' # r"
    by (auto simp: prefix_def)
  define label where "label = takeWhile (\<lambda>c. c \<noteq> CHR '']'') r"
  define r' where "r' = drop (Suc (Suc (length label))) r"
  define target where "target = takeWhile (\<lambda>c. c \<noteq> CHR '')'') r'"
  define ok where "ok \<longleftrightarrow> label \<noteq> [] \<and> CHR '']'' \<in> set r
      \<and> prefix ''('' (drop (Suc (length label)) r) \<and> target \<noteq> [] \<and> CHR '')'' \<in> set r'"
  have src: "match_link s = (if ok then Some (label, drop (Suc (length target)) r') else None)"
  proof (cases "CHR '']'' \<in> set r")
    case False
    then show ?thesis
      by (simp add: s match_link_def Let_def scan_char ok_def del: dropWhile_eq_Nil_conv)
  next
    case close: True
    show ?thesis
    proof (cases "prefix ''('' (drop (Suc (length label)) r)")
      case False
      then have "strip_prefix ''('' (drop (Suc (length label)) r) = None"
        by (simp add: strip_prefix_prefix)
      with close False show ?thesis
        by (simp add: s match_link_def Let_def scan_char ok_def label_def [symmetric]
            del: dropWhile_eq_Nil_conv)
    next
      case True
      then have "strip_prefix ''('' (drop (Suc (length label)) r) = Some r'"
        by (simp add: strip_prefix_prefix r'_def)
      with close True show ?thesis
        by (simp add: s match_link_def Let_def scan_char ok_def label_def [symmetric]
            target_def [symmetric] del: dropWhile_eq_Nil_conv)
    qed
  qed
  have take: "take (length label) r = label"
    unfolding label_def by (rule takeWhile_eq_take [symmetric])
  have d: "drop (length label + 3) (CHR ''['' # r) = r'"
    "drop (length label + 2) (CHR ''['' # r) = drop (Suc (length label)) r"
    by (simp_all add: r'_def eval_nat_numeral)
  have spec: "link_span s =
      (if ok then Some (label, length label + length target + 4) else None)"
    by (auto simp: s link_span_def first_at_char ok_def label_def [symmetric] d
        target_def [symmetric] take)
  have "drop (length label + length target + 4) s = drop (Suc (length target)) r'"
    by (simp add: s r'_def eval_nat_numeral ac_simps)
  with src spec show ?thesis
    by simp
qed


lemma link_span_positive: "link_span s = Some (out, n) \<Longrightarrow> 0 < n"
  by (auto simp: link_span_def split: if_splits option.splits)

lemma collapse_links_replace_spans: "collapse_links s = replace_spans link_span s"
proof (induction s rule: collapse_links.induct)
  case 1
  then show ?case by simp
next
  case (2 c cs)
  show ?case
  proof (cases "link_span (c # cs)")
    case None
    then have "match_link (c # cs) = None"
      by (simp add: match_link_span)
    with None "2.IH" show ?thesis by simp
  next
    case (Some span)
    obtain out n where span: "span = (out, n)" by (cases span)
    from Some span have m: "match_link (c # cs) = Some (out, drop n (c # cs))"
      by (simp add: match_link_span)
    from Some span have "0 < n"
      by (simp add: link_span_positive)
    with Some span m "2.IH" show ?thesis by simp
  qed
qed

lemma countable_text_replace_spans:
  "countable_text md = spec_countable_text md"
  by (simp add: countable_text_def spec_countable_text_def strip_tags_replace_spans
      strip_fences_replace_spans collapse_links_replace_spans)

lemmas spec_eval =
  tag_span_def fence_span_def link_span_def spec_countable_text_def spec_word_runs_def
  spec_word_count_def is_word_def is_space_def is_line_terminator_def

section \<open>Facts about the blockquote renderer\<close>

lemma dropWhile_all: "list_all P ws \<Longrightarrow> dropWhile P (ws @ s) = dropWhile P s"
  by (induction ws) auto

lemma takeWhile_all: "list_all P ws \<Longrightarrow> takeWhile P (ws @ s) = ws @ takeWhile P s"
  by (induction ws) auto

lemma trim_padded:
  assumes "list_all is_space ws" and "list_all is_space ws'"
    and "\<not> is_space c" and "\<not> is_space c'"
  shows "trim (ws @ c # mid @ c' # ws') = c # mid @ [c']"
proof -
  have "dropWhile is_space (ws @ c # mid @ c' # ws') = c # mid @ c' # ws'"
    using assms(1,3) by (simp add: dropWhile_all)
  moreover have "rev (c # mid @ c' # ws') = rev ws' @ c' # rev mid @ [c]"
    by simp
  moreover have "dropWhile is_space (rev ws' @ c' # rev mid @ [c]) = c' # rev mid @ [c]"
    using assms(2,4) by (simp add: dropWhile_all list_all_iff)
  ultimately show ?thesis
    by (simp add: trim_def)
qed

lemma unwrap_p_wrapped: "inner \<noteq> [] \<Longrightarrow> unwrap_p (''<p>'' @ inner @ ''</p>'') = inner"
  by (simp add: unwrap_p_def Suc_le_eq)

lemma match_marker_keyword:
  assumes "kw \<noteq> []" and "list_all is_word kw"
  shows "match_marker (''[!'' @ kw @ '']'' @ rest) = Some (kw, dropWhile is_space rest)"
proof -
  have "\<not> is_word CHR '']''"
    by (simp add: is_word_def)
  with assms(2) have "takeWhile is_word (kw @ '']'' @ rest) = kw"
    and "dropWhile is_word (kw @ '']'' @ rest) = '']'' @ rest"
    by (simp_all add: takeWhile_all dropWhile_all)
  with assms(1) show ?thesis
    by (simp add: match_marker_def)
qed

lemmas blockquote_eval =
  blockquote_def trim_def unwrap_p_def match_marker_def is_space_def is_word_def to_lower_def
  to_upper_def ucfirst_def icon_of_def icons_def blocknote_def

section \<open>Facts about fetching and preloading\<close>

lemmas api_eval =
  get_cached_url_def get_cached_html_def cache_has_def cache_get_def lookup_item_def
  cache_set_def evict.simps within_budget_def total_bytes_def startup_config_def
  expired_def cached_text_def example_env_def

lemma get_cached_url_debug: "debug (snd (get_cached_url e st url)) = debug st"
  by (auto simp: get_cached_url_def split: option.splits prod.splits sum.splits)

lemma untitled_words: "words untitled_source = Inr 1"
  by (simp add: untitled_source_def text_eval)

lemma untitled_front_matter:
  "front_matter untitled_source = [(''Summary'', ''Y''), (''Author'', ''a''), (''Tags'', ''A, B'')]"
  by (simp add: untitled_source_def comment_eval)

lemma untitled_keys: "front_keys untitled_source = [''summary'', ''author'', ''tags'']"
  by (simp add: front_keys_def untitled_front_matter to_lower_def)

lemma untitled_fetch:
  "get_cached_url (example_env (\<lambda>url. Inr untitled_source) no_files 0)
      \<lparr> cache = [], articles = Map.empty, debug = False \<rparr> (article_url ''post'')
     = (Inr untitled_source,
        \<lparr> cache = [\<lparr> item_key = article_url ''post'', item_value = untitled_source,
                      item_len = length untitled_source, item_stamp = 0, item_expires = 86400 \<rparr>],
          articles = Map.empty, debug = False \<rparr>)"
  by (simp add: api_eval)

lemma untitled_article:
  "make_article example_getTime ''post'' untitled_source =
     Inr [''slug'' \<mapsto> JStr ''post'', ''words'' \<mapsto> JNum 1, ''summary'' \<mapsto> JStr ''Y'',
          ''author'' \<mapsto> JStr ''a'', ''tags'' \<mapsto> JStr ''A, B'', ''date'' \<mapsto> JNaN,
          ''tags'' \<mapsto> JList [''A'', ''B'']]"
  unfolding make_article_def untitled_words parse_front_matter_def assign_front_matter_def
    untitled_front_matter
  by (simp add: assign_field_def article_date_def date_operand_def to_lower_def
      example_getTime_def is_space_def)

lemma marked_key_differs: "''MARKED:'' @ url \<noteq> url"
proof
  assume "''MARKED:'' @ url = url"
  then have "length (''MARKED:'' @ url) = length url"
    by (rule arg_cong)
  then show False by simp
qed

lemma cache_set_all:
  assumes "list_all P c" and "P \<lparr> item_key = k, item_value = v, item_len = length v,
                 item_stamp = t, item_expires = t + maxAge cfg \<rparr>"
  shows "list_all P (cache_set cfg t c k v)"
proof -
  obtain rest where r: "cache_set cfg t c k v =
      \<lparr> item_key = k, item_value = v, item_len = length v,
        item_stamp = t, item_expires = t + maxAge cfg \<rparr> # rest" and s: "set rest \<subseteq> set c"
    using cache_set_hd [of cfg t c k v] by blast
  from assms(1) s have "list_all P rest"
    by (auto simp: list_all_iff)
  with assms(2) r show ?thesis by simp
qed

lemma cache_get_all:
  assumes "list_all P c" and "\<And>x. P x \<Longrightarrow> P (x\<lparr>item_stamp := t\<rparr>)"
  shows "list_all P (snd (cache_get t c k))"
proof (cases "lookup_item c k")
  case None
  with assms(1) show ?thesis by (simp add: cache_get_def)
next
  case (Some x)
  then have "x \<in> set c"
    by (auto dest: lookup_item_key)
  with assms(1) have "P x"
    by (simp add: list_all_iff)
  then have "P (x\<lparr>item_stamp := t\<rparr>)"
    by (rule assms(2))
  moreover from assms(1) have "list_all P (filter (\<lambda>y. item_key y \<noteq> k) c)"
    by (auto simp: list_all_iff)
  ultimately show ?thesis
    using Some assms(1) by (simp add: cache_get_def)
qed

lemma blog_slug_prefixed: "blog_slug url = Some slug \<Longrightarrow> blog_slug (p @ url) \<noteq> None"
  by (induction p) (auto split: option.splits)

lemma no_blog_keys_lookup:
  assumes "no_blog_keys c" and "blog_slug url = Some slug"
  shows "lookup_item c (p @ url) = None"
proof (cases "lookup_item c (p @ url)")
  case None
  then show ?thesis .
next
  case (Some x)
  then have "item_key x = p @ url" and "x \<in> set c"
    by (auto dest: lookup_item_key)
  with assms(1) have "blog_slug (p @ url) = None"
    by (auto simp: no_blog_keys_def list_all_iff)
  with blog_slug_prefixed [OF assms(2), of p] show ?thesis by simp
qed

lemma get_cached_url_hit:
  assumes "(if debug st then blog_slug url else None) = None"
    and "cache_has (clock e) (cache st) url"
  shows "get_cached_url e st url =
           (Inr (cached_text (fst (cache_get (clock e) (cache st) url))),
            st\<lparr>cache := snd (cache_get (clock e) (cache st) url)\<rparr>)"
  using assms by (auto simp: get_cached_url_def split: prod.splits)

lemma get_cached_html_hit:
  assumes "cache_has (clock e) (cache st) (''MARKED:'' @ url)"
  shows "get_cached_html e st url =
           (Inr (cached_text (fst (cache_get (clock e) (cache st) (''MARKED:'' @ url)))),
            st\<lparr>cache := snd (cache_get (clock e) (cache st) (''MARKED:'' @ url))\<rparr>)"
  using assms by (auto simp: get_cached_html_def split: prod.splits)

lemma get_cached_url_no_blog_keys:
  assumes "debug st" and "no_blog_keys (cache st)"
  shows "no_blog_keys (cache (snd (get_cached_url e st url)))"
proof (cases "blog_slug url")
  case (Some slug)
  with assms show ?thesis by (simp add: get_cached_url_def)
next
  case None
  show ?thesis
  proof (cases "cache_has (clock e) (cache st) url")
    case True
    have "no_blog_keys (snd (cache_get (clock e) (cache st) url))"
      unfolding no_blog_keys_def
      using assms(2) [unfolded no_blog_keys_def] by (rule cache_get_all) simp
    with None True assms(1) show ?thesis
      by (simp add: get_cached_url_hit)
  next
    case False
    show ?thesis
    proof (cases "http_get e url")
      case (Inl err)
      with None False assms show ?thesis by (simp add: get_cached_url_def)
    next
      case (Inr md)
      have "no_blog_keys (cache_set startup_config (clock e) (cache st) url md)"
        unfolding no_blog_keys_def
        using assms(2) [unfolded no_blog_keys_def] by (rule cache_set_all) (simp add: None)
      with None False Inr assms(1) show ?thesis by (simp add: get_cached_url_def)
    qed
  qed
qed

lemma get_cached_html_no_blog_keys:
  assumes "debug st" and "no_blog_keys (cache st)"
  shows "no_blog_keys (cache (snd (get_cached_html e st url)))"
proof (cases "cache_has (clock e) (cache st) (''MARKED:'' @ url)")
  case True
  have "no_blog_keys (snd (cache_get (clock e) (cache st) (''MARKED:'' @ url)))"
    unfolding no_blog_keys_def
    using assms(2) [unfolded no_blog_keys_def] by (rule cache_get_all) simp
  with True show ?thesis
    by (simp add: get_cached_html_hit)
next
  case False
  have d: "debug (snd (get_cached_url e st url))"
    using assms(1) by (simp add: get_cached_url_debug)
  have "no_blog_keys (cache (snd (get_cached_url e st url)))"
    using assms by (rule get_cached_url_no_blog_keys)
  with False d show ?thesis
    by (auto simp: get_cached_html_def Let_def split: prod.splits sum.splits)
qed

lemma no_blog_keys_empty: "no_blog_keys []"
  by (simp add: no_blog_keys_def)

lemma get_cached_url_upstream:
  assumes "cache_mirrors e (cache st)"
  shows "fst (get_cached_url e st url) = upstream e (debug st) url
         \<and> cache_mirrors e (cache (snd (get_cached_url e st url)))"
proof (cases "if debug st then blog_slug url else None")
  case (Some slug)
  with assms show ?thesis
    by (simp add: get_cached_url_def upstream_def)
next
  case None
  show ?thesis
  proof (cases "cache_has (clock e) (cache st) url")
    case True
    then obtain x where x: "lookup_item (cache st) url = Some x"
      and v: "fst (cache_get (clock e) (cache st) url) = Some (item_value x)"
      using cache_get_has by blast
    from x have "item_key x = url" and "x \<in> set (cache st)"
      by (auto dest: lookup_item_key)
    with assms have "http_get e url = Inr (item_value x)"
      by (auto simp: cache_mirrors_def list_all_iff)
    moreover have "cache_mirrors e (snd (cache_get (clock e) (cache st) url))"
      unfolding cache_mirrors_def
      using assms [unfolded cache_mirrors_def] by (rule cache_get_all) simp
    ultimately show ?thesis
      using None True v by (simp add: get_cached_url_hit upstream_def cached_text_def)
  next
    case False
    show ?thesis
    proof (cases "http_get e url")
      case (Inl err)
      with None False assms show ?thesis
        by (simp add: get_cached_url_def upstream_def)
    next
      case (Inr md)
      have "cache_mirrors e (cache_set startup_config (clock e) (cache st) url md)"
        unfolding cache_mirrors_def
        using assms [unfolded cache_mirrors_def] by (rule cache_set_all) (simp add: Inr)
      with None False Inr show ?thesis
        by (simp add: get_cached_url_def upstream_def)
    qed
  qed
qed

lemma preload_each_outcome:
  "cache_mirrors e (cache st) \<Longrightarrow> fst (preload_each e st slugs) = preload_outcome e (debug st) slugs"
proof (induction slugs arbitrary: st)
  case Nil
  then show ?case by simp
next
  case (Cons slug slugs)
  obtain r st' where "get_cached_url e st (article_url slug) = (r, st')"
    by (cases "get_cached_url e st (article_url slug)")
  with get_cached_url_upstream [OF Cons.prems, of "article_url slug"]
  have g: "get_cached_url e st (article_url slug) = (upstream e (debug st) (article_url slug), st')"
    and m: "cache_mirrors e (cache st')"
    by simp_all
  from g have d: "debug st' = debug st"
    using get_cached_url_debug [of e st "article_url slug"] by simp
  show ?case
  proof (cases "upstream e (debug st) (article_url slug)")
    case (Inl err)
    with g show ?thesis by simp
  next
    case (Inr md)
    show ?thesis
    proof (cases "make_article (date_time e) slug md")
      case (Inl ex)
      with g Inr show ?thesis by simp
    next
      case article: (Inr a)
      have "fst (preload_each e (st'\<lparr>articles := (articles st')(slug \<mapsto> a)\<rparr>) slugs) =
          preload_outcome e (debug st) slugs"
        using Cons.IH [of "st'\<lparr>articles := (articles st')(slug \<mapsto> a)\<rparr>"] m d by simp
      with g Inr article show ?thesis by simp
    qed
  qed
qed

lemma startup_outcome: "fst (startup e dbg slugs) = preload_outcome e dbg slugs"
  using preload_each_outcome [of e "\<lparr> cache = [], articles = Map.empty, debug = dbg \<rparr>" slugs]
  by (simp add: startup_def preloadBlog_def cache_mirrors_def)

lemma preload_outcome_completed:
  "preload_outcome e dbg slugs = Completed \<Longrightarrow> slug \<in> set slugs \<Longrightarrow>
   \<exists>md. upstream e dbg (article_url slug) = Inr md"
  by (induction slugs) (auto split: sum.splits)

lemma preload_outcome_thrown:
  "preload_outcome e dbg slugs = Thrown ex \<Longrightarrow>
   \<exists>s\<in>set slugs. \<exists>md. upstream e dbg (article_url s) = Inr md
      \<and> make_article (date_time e) s md = Inl ex"
  by (induction slugs) (auto split: sum.splits)

lemma preload_outcome_failed:
  "preload_outcome e dbg slugs = Failed err \<Longrightarrow>
   \<exists>s\<in>set slugs. upstream e dbg (article_url s) = Inl err"
  by (induction slugs) (auto split: sum.splits)

lemma blog_slug_article_url: "blog_slug (article_url ''post'') = Some ''post''"
  by (simp add: article_url_def match_blog_def is_line_terminator_def)

lemma blog_slug_readme_url: "blog_slug readme_url = None"
  by (simp add: readme_url_def match_blog_def)

lemma get_cached_url_error:
  "fst (get_cached_url e st url) = Inl err \<longleftrightarrow>
     ((debug st \<and> blog_slug url \<noteq> None) \<or> \<not> cache_has (clock e) (cache st) url)
     \<and> upstream e (debug st) url = Inl err"
  by (auto simp: get_cached_url_def upstream_def split: option.splits prod.splits sum.splits)

lemma get_cached_url_error_state:
  "fst (get_cached_url e st url) = Inl err \<Longrightarrow> snd (get_cached_url e st url) = st"
  by (auto simp: get_cached_url_def split: option.splits prod.splits sum.splits if_splits)

lemma get_cached_html_error:
  "fst (get_cached_html e st url) = Inl err \<longleftrightarrow>
     reads_upstream e st url \<and> upstream e (debug st) url = Inl err"
proof (cases "cache_has (clock e) (cache st) (''MARKED:'' @ url)")
  case True
  then show ?thesis
    by (simp add: get_cached_html_hit reads_upstream_def)
next
  case False
  obtain r st' where g: "get_cached_url e st url = (r, st')"
    by (cases "get_cached_url e st url")
  with False have "fst (get_cached_html e st url) = Inl err \<longleftrightarrow> r = Inl err"
    by (cases r) (simp_all add: get_cached_html_def Let_def)
  also from g have "r = Inl err \<longleftrightarrow> fst (get_cached_url e st url) = Inl err"
    by simp
  finally show ?thesis
    using False by (simp add: get_cached_url_error reads_upstream_def)
qed

section \<open>Preload and failed fetches\<close>

text \<open>
  The slugs are taken in the order in which the fetches are answered. If the fetch of a
  slug fails then \<^verbatim>\<open>startup\<close> does not complete without error; and if no article that is
  fetched raises an exception while it is made, preload ends with its final callback
  receiving the error of a failed fetch (line 66). \<open>upstream\<close> is what a fetch reads: the
  cache, empty at startup, only repeats it (\<open>startup_outcome\<close>).
\<close>

lemma failed_fetch_fails_preload:
  assumes "slug \<in> set slugs" and "upstream e dbg (article_url slug) = Inl err"
  shows "fst (startup e dbg slugs) \<noteq> Completed
         \<and> ((\<forall>s\<in>set slugs. \<forall>md ex. upstream e dbg (article_url s) = Inr md \<longrightarrow>
                 make_article (date_time e) s md \<noteq> Inl ex) \<longrightarrow>
              (\<exists>s\<in>set slugs. \<exists>err'. upstream e dbg (article_url s) = Inl err'
                 \<and> fst (startup e dbg slugs) = Failed err'))"
proof (intro conjI impI)
  have not_completed: "preload_outcome e dbg slugs \<noteq> Completed"
  proof
    assume "preload_outcome e dbg slugs = Completed"
    from preload_outcome_completed [OF this assms(1)] assms(2) show False
      by simp
  qed
  then show "fst (startup e dbg slugs) \<noteq> Completed"
    unfolding startup_outcome .
  assume quiet: "\<forall>s\<in>set slugs. \<forall>md ex. upstream e dbg (article_url s) = Inr md \<longrightarrow>
                 make_article (date_time e) s md \<noteq> Inl ex"
  show "\<exists>s\<in>set slugs. \<exists>err'. upstream e dbg (article_url s) = Inl err'
                 \<and> fst (startup e dbg slugs) = Failed err'"
  proof (cases "preload_outcome e dbg slugs")
    case Completed
    with not_completed show ?thesis by simp
  next
    case (Failed err')
    with preload_outcome_failed [OF Failed] show ?thesis
      unfolding startup_outcome by blast
  next
    case (Thrown ex)
    from preload_outcome_thrown [OF Thrown] quiet show ?thesis
      by blast
  qed
qed

text \<open>
  An instance: two slugs, the first with a well-formed source, the second answered with
  an error by the network.
\<close>

lemma failed_fetch_fails_preload_example:
  "''b'' \<in> set [''a'', ''b'']
   \<and> upstream (example_env (\<lambda>url. if url = article_url ''a'' then Inr untitled_source
                                   else Inl RequestError) no_files 0) False (article_url ''b'')
       = Inl RequestError
   \<and> fst (startup (example_env (\<lambda>url. if url = article_url ''a'' then Inr untitled_source
                                       else Inl RequestError) no_files 0) False [''a'', ''b''])
       = Failed RequestError"
proof -
  let ?e = "example_env (\<lambda>url. if url = article_url ''a'' then Inr untitled_source
                                   else Inl RequestError) no_files 0"
  have mem: "''b'' \<in> set [''a'', ''b'']"
    by simp
  have ua: "upstream ?e False (article_url ''a'') = Inr untitled_source"
    and ub: "upstream ?e False (article_url ''b'') = Inl RequestError"
    by (simp_all add: upstream_def example_env_def article_url_def)
  have tags: "''tags'' \<in> set (front_keys untitled_source)"
    by (simp add: untitled_keys)
  have made: "make_article getTime s untitled_source \<noteq> Inl ex" for getTime s ex
    using parse_front_matter_tags [OF tags, of getTime "[''slug'' \<mapsto> JStr s, ''words'' \<mapsto> JNum (int 1)]"]
    by (auto simp: make_article_def untitled_words)
  have quiet: "\<forall>s\<in>set [''a'', ''b'']. \<forall>md ex. upstream ?e False (article_url s) = Inr md \<longrightarrow>
                 make_article (date_time ?e) s md \<noteq> Inl ex"
    using ua ub made by auto
  from failed_fetch_fails_preload [OF mem ub] quiet
  obtain s err' where "s \<in> set [''a'', ''b'']" and "upstream ?e False (article_url s) = Inl err'"
    and "fst (startup ?e False [''a'', ''b'']) = Failed err'"
    by blast
  with ua ub mem show ?thesis
    by auto
qed

section \<open>Claims\<close>

text \<open>
  Claim C2 (as the code has it): with debug mode enabled, for every URL that matches the
  pattern of the blog sources and has no rendered entry in the cache, two consecutive
  requests for the rendered HTML, between which the local file of the article changes,
  each return the HTML rendered from the content the file has at the time of the
  request, and leave the state as it was. Such a URL never has a rendered entry while
  debug mode is on: the cache is empty at startup (\<open>no_blog_keys_empty\<close>), requests in
  debug mode store no key that matches the pattern (\<open>get_cached_url_no_blog_keys\<close>,
  \<open>get_cached_html_no_blog_keys\<close>), and the rendered key of a blog URL matches it
  (\<open>no_blog_keys_lookup\<close>).
\<close>

theorem debug_blog_requests_read_the_file:
  assumes "debug st"
    and "blog_slug url = Some slug"
    and "lookup_item (cache st) (''MARKED:'' @ url) = None"
    and "read_file e (local_file slug) = Inr md"
    and "read_file e' (local_file slug) = Inr md'"
  shows "get_cached_html e st url = (Inr (marked_parse e md), st)
         \<and> get_cached_html e' (snd (get_cached_html e st url)) url = (Inr (marked_parse e' md'), st)"
proof -
  from assms(3) have miss: "\<not> cache_has t (cache st) (''MARKED:'' @ url)" for t
    by (simp add: cache_has_def)
  from assms(1,2) have raw: "get_cached_url env st url = (read_file env (local_file slug), st)" for env
    by (simp add: get_cached_url_def)
  from miss raw assms(1,4) have first: "get_cached_html e st url = (Inr (marked_parse e md), st)"
    by (simp add: get_cached_html_def)
  from miss raw assms(1,5) have "get_cached_html e' st url = (Inr (marked_parse e' md'), st)"
    by (simp add: get_cached_html_def)
  with first show ?thesis by simp
qed


text \<open>
  Witness for C2: the article \<^verbatim>\<open>post\<close> in a process started in debug mode; its local
  file reads \<^verbatim>\<open>one\<close> at the first request and \<^verbatim>\<open>two\<close> at the second.
\<close>

theorem debug_blog_requests_read_the_file_witness:
  "debug \<lparr> cache = [], articles = Map.empty, debug = True \<rparr>
   \<and> blog_slug (article_url ''post'') = Some ''post''
   \<and> lookup_item (cache \<lparr> cache = [], articles = Map.empty, debug = True \<rparr>)
         (''MARKED:'' @ article_url ''post'') = None
   \<and> read_file (example_env (\<lambda>url. Inl RequestError) (\<lambda>file. Inr ''one'') 0) (local_file ''post'')
       = Inr ''one''
   \<and> read_file (example_env (\<lambda>url. Inl RequestError) (\<lambda>file. Inr ''two'') 5) (local_file ''post'')
       = Inr ''two''
   \<and> get_cached_html (example_env (\<lambda>url. Inl RequestError) (\<lambda>file. Inr ''one'') 0)
         \<lparr> cache = [], articles = Map.empty, debug = True \<rparr> (article_url ''post'')
       = (Inr (plain_paragraph ''one''), \<lparr> cache = [], articles = Map.empty, debug = True \<rparr>)
   \<and> get_cached_html (example_env (\<lambda>url. Inl RequestError) (\<lambda>file. Inr ''two'') 5)
         (snd (get_cached_html (example_env (\<lambda>url. Inl RequestError) (\<lambda>file. Inr ''one'') 0)
                 \<lparr> cache = [], articles = Map.empty, debug = True \<rparr> (article_url ''post'')))
         (article_url ''post'')
       = (Inr (plain_paragraph ''two''), \<lparr> cache = [], articles = Map.empty, debug = True \<rparr>)"
proof -
  let ?e = "example_env (\<lambda>url. Inl RequestError) (\<lambda>file. Inr ''one'') 0"
  let ?e' = "example_env (\<lambda>url. Inl RequestError) (\<lambda>file. Inr ''two'') 5"
  let ?st = "\<lparr> cache = [], articles = Map.empty, debug = True \<rparr>"
  have d: "debug ?st"
    by simp
  have none: "lookup_item (cache ?st) (''MARKED:'' @ article_url ''post'') = None"
    by (simp add: lookup_item_def)
  have f: "read_file ?e (local_file ''post'') = Inr ''one''"
    and f': "read_file ?e' (local_file ''post'') = Inr ''two''"
    by (simp_all add: example_env_def)
  have mp: "marked_parse ?e = plain_paragraph" "marked_parse ?e' = plain_paragraph"
    by (simp_all add: example_env_def)
  note both = debug_blog_requests_read_the_file [OF d blog_slug_article_url none f f', unfolded mp]
  from both have first: "get_cached_html ?e ?st (article_url ''post'') =
      (Inr (plain_paragraph ''one''), ?st)"
    by (rule conjunct1)
  from both have second: "get_cached_html ?e' (snd (get_cached_html ?e ?st (article_url ''post'')))
      (article_url ''post'') = (Inr (plain_paragraph ''two''), ?st)"
    by (rule conjunct2)
  from d blog_slug_article_url none f f' first second show ?thesis
    by (intro conjI)
qed

text \<open>
  Counterexample to C2 as stated, for every URL: the page of a repository, whose URL
  does not match the pattern of the blog sources. In debug mode its raw text is still
  fetched through the cache (line 352) and stored in it (line 363), so the second
  request renders the text \<^verbatim>\<open>one\<close> of the first request although the source now reads
  \<^verbatim>\<open>two\<close>.
\<close>

theorem debug_page_request_is_stale:
  "http_get (example_env (\<lambda>url. Inr ''two'') no_files 5) readme_url = Inr ''two''
   \<and> fst (get_cached_html (example_env (\<lambda>url. Inr ''two'') no_files 5)
            (snd (get_cached_html (example_env (\<lambda>url. Inr ''one'') no_files 0)
                    \<lparr> cache = [], articles = Map.empty, debug = True \<rparr> readme_url))
            readme_url)
       = Inr (plain_paragraph ''one'')
   \<and> plain_paragraph ''one'' \<noteq> plain_paragraph ''two''"
proof -
  let ?st = "\<lparr> cache = [], articles = Map.empty, debug = True \<rparr>"
  have first: "get_cached_html (example_env (\<lambda>url. Inr ''one'') no_files 0) ?st readme_url =
      (Inr (plain_paragraph ''one''),
       \<lparr> cache = [\<lparr> item_key = readme_url, item_value = ''one'', item_len = 3,
                      item_stamp = 0, item_expires = 86400 \<rparr>],
         articles = Map.empty, debug = True \<rparr>)"
    by (simp add: api_eval blog_slug_readme_url)
  have "fst (get_cached_html (example_env (\<lambda>url. Inr ''two'') no_files 5)
      \<lparr> cache = [\<lparr> item_key = readme_url, item_value = ''one'', item_len = 3,
                      item_stamp = 0, item_expires = 86400 \<rparr>],
         articles = Map.empty, debug = True \<rparr> readme_url) = Inr (plain_paragraph ''one'')"
    by (simp add: api_eval blog_slug_readme_url marked_key_differs)
  with first show ?thesis
    by (simp add: example_env_def plain_paragraph_def)
qed

text \<open>
  Claim C3 (as the code has it): for every URL, \<^verbatim>\<open>get_cached_html\<close> looks the cache up
  under the key \<^verbatim>\<open>MARKED:\<close> followed by the URL, which is never the key of the raw
  text, the URL itself. On a hit it returns the cached value. On a miss it calls
  \<^verbatim>\<open>get_cached_url\<close>; an error is passed on with the state as \<^verbatim>\<open>get_cached_url\<close> left it;
  a text is rendered by \<^verbatim>\<open>marked\<close> and the HTML returned. In debug mode nothing more is
  done; otherwise the HTML is stored under the same \<^verbatim>\<open>MARKED:\<close> key, and every request
  for the URL made before the entry expires, 86400 seconds later, returns this HTML,
  whatever the source has become.
\<close>

theorem rendered_html_is_cached:
  "''MARKED:'' @ url \<noteq> url
   \<and> (\<forall>x. lookup_item (cache st) (''MARKED:'' @ url) = Some x \<and> \<not> expired (clock e) x \<longrightarrow>
          fst (get_cached_html e st url) = Inr (item_value x))
   \<and> (\<not> cache_has (clock e) (cache st) (''MARKED:'' @ url) \<longrightarrow>
        (\<forall>err st'. get_cached_url e st url = (Inl err, st') \<longrightarrow>
           get_cached_html e st url = (Inl err, st'))
        \<and> (\<forall>md st'. get_cached_url e st url = (Inr md, st') \<longrightarrow>
             fst (get_cached_html e st url) = Inr (marked_parse e md)
             \<and> (debug st \<longrightarrow> snd (get_cached_html e st url) = st')
             \<and> (\<not> debug st \<longrightarrow>
                  snd (get_cached_html e st url) =
                    st'\<lparr>cache := cache_set startup_config (clock e) (cache st')
                                   (''MARKED:'' @ url) (marked_parse e md)\<rparr>
                  \<and> (\<forall>e' :: env. clock e' < clock e + 86400 \<longrightarrow>
                         fst (get_cached_html e' (snd (get_cached_html e st url)) url) =
                           Inr (marked_parse e md)))))"
proof (intro conjI allI impI)
  show "''MARKED:'' @ url \<noteq> url"
    by (rule marked_key_differs)
next
  fix x
  assume "lookup_item (cache st) (''MARKED:'' @ url) = Some x \<and> \<not> expired (clock e) x"
  then show "fst (get_cached_html e st url) = Inr (item_value x)"
    by (simp add: get_cached_html_def cache_has_def cache_get_def cached_text_def)
next
  fix err st'
  assume "\<not> cache_has (clock e) (cache st) (''MARKED:'' @ url)"
    and "get_cached_url e st url = (Inl err, st')"
  then show "get_cached_html e st url = (Inl err, st')"
    by (simp add: get_cached_html_def)
next
  fix md st'
  assume miss: "\<not> cache_has (clock e) (cache st) (''MARKED:'' @ url)"
    and raw: "get_cached_url e st url = (Inr md, st')"
  then show "fst (get_cached_html e st url) = Inr (marked_parse e md)"
    by (simp add: get_cached_html_def Let_def)
  have d: "debug st' = debug st"
    using get_cached_url_debug [of e st url] raw by simp
  {
    assume "debug st"
    with miss raw d show "snd (get_cached_html e st url) = st'"
      by (simp add: get_cached_html_def Let_def)
  }
  assume nd: "\<not> debug st"
  with miss raw d show after: "snd (get_cached_html e st url) =
      st'\<lparr>cache := cache_set startup_config (clock e) (cache st')
                     (''MARKED:'' @ url) (marked_parse e md)\<rparr>"
    by (simp add: get_cached_html_def Let_def)
  fix e' :: env
  assume "clock e' < clock e + 86400"
  then have fresh: "clock e' < clock e + maxAge startup_config"
    by (simp add: startup_config_def)
  from after have "cache_has (clock e') (cache (snd (get_cached_html e st url))) (''MARKED:'' @ url)"
    by (simp add: cache_has_set_later [OF fresh])
  moreover from after
  have "fst (cache_get (clock e') (cache (snd (get_cached_html e st url))) (''MARKED:'' @ url)) =
      Some (marked_parse e md)"
    by (simp add: cache_get_set_later [OF fresh])
  ultimately show "fst (get_cached_html e' (snd (get_cached_html e st url)) url) =
      Inr (marked_parse e md)"
    by (simp add: get_cached_html_hit cached_text_def)
qed

text \<open>
  Witness for C3, on the page of a repository. A first request on an empty cache with
  debug mode off stores the raw text and the HTML under the two keys, and a request
  five seconds later returns the stored HTML although the source has changed. A request
  that finds an entry under the \<^verbatim>\<open>MARKED:\<close> key returns its value. A request whose fetch
  fails passes the error on. The same first request in debug mode stores the raw text
  only.
\<close>

theorem rendered_html_is_cached_witness:
  "\<not> cache_has 0 [] (''MARKED:'' @ readme_url)
   \<and> get_cached_url (example_env (\<lambda>url. Inr ''one'') no_files 0)
         \<lparr> cache = [], articles = Map.empty, debug = False \<rparr> readme_url
       = (Inr ''one'',
          \<lparr> cache = [\<lparr> item_key = readme_url, item_value = ''one'', item_len = 3,
                        item_stamp = 0, item_expires = 86400 \<rparr>],
            articles = Map.empty, debug = False \<rparr>)
   \<and> fst (get_cached_html (example_env (\<lambda>url. Inr ''one'') no_files 0)
            \<lparr> cache = [], articles = Map.empty, debug = False \<rparr> readme_url)
       = Inr (plain_paragraph ''one'')
   \<and> cache (snd (get_cached_html (example_env (\<lambda>url. Inr ''one'') no_files 0)
                   \<lparr> cache = [], articles = Map.empty, debug = False \<rparr> readme_url))
       = [\<lparr> item_key = ''MARKED:'' @ readme_url, item_value = plain_paragraph ''one'',
             item_len = 11, item_stamp = 0, item_expires = 86400 \<rparr>,
          \<lparr> item_key = readme_url, item_value = ''one'', item_len = 3,
             item_stamp = 0, item_expires = 86400 \<rparr>]
   \<and> fst (get_cached_html (example_env (\<lambda>url. Inr ''two'') no_files 5)
            (snd (get_cached_html (example_env (\<lambda>url. Inr ''one'') no_files 0)
                    \<lparr> cache = [], articles = Map.empty, debug = False \<rparr> readme_url))
            readme_url)
       = Inr (plain_paragraph ''one'')
   \<and> lookup_item
         [\<lparr> item_key = ''MARKED:'' @ readme_url, item_value = ''<p>kept</p>'',
             item_len = 11, item_stamp = 0, item_expires = 86400 \<rparr>]
         (''MARKED:'' @ readme_url)
       = Some \<lparr> item_key = ''MARKED:'' @ readme_url, item_value = ''<p>kept</p>'',
                 item_len = 11, item_stamp = 0, item_expires = 86400 \<rparr>
   \<and> \<not> expired 5 \<lparr> item_key = ''MARKED:'' @ readme_url, item_value = ''<p>kept</p>'',
                       item_len = 11, item_stamp = 0, item_expires = 86400 \<rparr>
   \<and> fst (get_cached_html (example_env (\<lambda>url. Inr ''two'') no_files 5)
            \<lparr> cache = [\<lparr> item_key = ''MARKED:'' @ readme_url, item_value = ''<p>kept</p>'',
                          item_len = 11, item_stamp = 0, item_expires = 86400 \<rparr>],
              articles = Map.empty, debug = False \<rparr> readme_url)
       = Inr ''<p>kept</p>''
   \<and> get_cached_html (example_env (\<lambda>url. Inl RequestError) no_files 0)
         \<lparr> cache = [], articles = Map.empty, debug = False \<rparr> readme_url
       = (Inl RequestError, \<lparr> cache = [], articles = Map.empty, debug = False \<rparr>)
   \<and> snd (get_cached_html (example_env (\<lambda>url. Inr ''one'') no_files 0)
            \<lparr> cache = [], articles = Map.empty, debug = True \<rparr> readme_url)
       = \<lparr> cache = [\<lparr> item_key = readme_url, item_value = ''one'', item_len = 3,
                        item_stamp = 0, item_expires = 86400 \<rparr>],
            articles = Map.empty, debug = True \<rparr>"
proof -
  let ?e = "example_env (\<lambda>url. Inr ''one'') no_files 0"
  let ?e' = "example_env (\<lambda>url. Inr ''two'') no_files 5"
  let ?fail = "example_env (\<lambda>url. Inl RequestError) no_files 0"
  let ?st = "\<lparr> cache = [], articles = Map.empty, debug = False \<rparr>"
  let ?st' = "\<lparr> cache = [\<lparr> item_key = readme_url, item_value = ''one'', item_len = 3,
                        item_stamp = 0, item_expires = 86400 \<rparr>],
            articles = Map.empty, debug = False \<rparr>"
  let ?dbg = "\<lparr> cache = [], articles = Map.empty, debug = True \<rparr>"
  let ?dbg' = "\<lparr> cache = [\<lparr> item_key = readme_url, item_value = ''one'', item_len = 3,
                        item_stamp = 0, item_expires = 86400 \<rparr>],
            articles = Map.empty, debug = True \<rparr>"
  let ?kept = "\<lparr> item_key = ''MARKED:'' @ readme_url, item_value = ''<p>kept</p>'',
                 item_len = 11, item_stamp = 0, item_expires = 86400 \<rparr>"
  let ?hit = "\<lparr> cache = [?kept], articles = Map.empty, debug = False \<rparr>"
  have miss0: "\<not> cache_has 0 [] (''MARKED:'' @ readme_url)"
    by (simp add: cache_has_def lookup_item_def)
  have miss: "\<not> cache_has (clock ?e) (cache ?st) (''MARKED:'' @ readme_url)"
    and miss_fail: "\<not> cache_has (clock ?fail) (cache ?st) (''MARKED:'' @ readme_url)"
    and miss_dbg: "\<not> cache_has (clock ?e) (cache ?dbg) (''MARKED:'' @ readme_url)"
    by (simp_all add: cache_has_def lookup_item_def)
  have nd: "\<not> debug ?st" and d: "debug ?dbg"
    by simp_all
  have raw: "get_cached_url ?e ?st readme_url = (Inr ''one'', ?st')"
    by (simp add: api_eval)
  have later: "clock ?e' < clock ?e + 86400"
    by (simp add: example_env_def)
  have mp: "marked_parse ?e = plain_paragraph"
    by (simp add: example_env_def)
  from rendered_html_is_cached [of readme_url ?st ?e] miss raw nd later
  have first: "fst (get_cached_html ?e ?st readme_url) = Inr (marked_parse ?e ''one'')"
    and after: "snd (get_cached_html ?e ?st readme_url) =
        ?st'\<lparr>cache := cache_set startup_config (clock ?e) (cache ?st')
                       (''MARKED:'' @ readme_url) (marked_parse ?e ''one'')\<rparr>"
    and again: "fst (get_cached_html ?e' (snd (get_cached_html ?e ?st readme_url)) readme_url) =
        Inr (marked_parse ?e ''one'')"
    by blast+
  have stored: "cache (snd (get_cached_html ?e ?st readme_url)) =
      [\<lparr> item_key = ''MARKED:'' @ readme_url, item_value = plain_paragraph ''one'',
          item_len = 11, item_stamp = 0, item_expires = 86400 \<rparr>,
       \<lparr> item_key = readme_url, item_value = ''one'', item_len = 3,
          item_stamp = 0, item_expires = 86400 \<rparr>]"
    unfolding after mp
    by (simp add: cache_set_def evict.simps within_budget_def total_bytes_def startup_config_def
        example_env_def plain_paragraph_def marked_key_differs [symmetric])
  have found0: "lookup_item [?kept] (''MARKED:'' @ readme_url) = Some ?kept"
    by (simp add: lookup_item_def)
  have valid0: "\<not> expired 5 ?kept"
    by (simp add: expired_def)
  have found: "lookup_item (cache ?hit) (''MARKED:'' @ readme_url) = Some ?kept"
    by (simp add: lookup_item_def)
  have valid: "\<not> expired (clock ?e') ?kept"
    by (simp add: expired_def example_env_def)
  from rendered_html_is_cached [of readme_url ?hit ?e'] found valid
  have "fst (get_cached_html ?e' ?hit readme_url) = Inr (item_value ?kept)"
    by blast
  then have hit: "fst (get_cached_html ?e' ?hit readme_url) = Inr ''<p>kept</p>''"
    by simp
  have err: "get_cached_url ?fail ?st readme_url = (Inl RequestError, ?st)"
    by (simp add: api_eval)
  from rendered_html_is_cached [of readme_url ?st ?fail] miss_fail err
  have failed: "get_cached_html ?fail ?st readme_url = (Inl RequestError, ?st)"
    by blast
  have raw_dbg: "get_cached_url ?e ?dbg readme_url = (Inr ''one'', ?dbg')"
    by (simp add: api_eval blog_slug_readme_url)
  from rendered_html_is_cached [of readme_url ?dbg ?e] miss_dbg raw_dbg d
  have debugged: "snd (get_cached_html ?e ?dbg readme_url) = ?dbg'"
    by blast
  from miss0 raw first again stored found0 valid0 hit failed debugged show ?thesis
    unfolding mp by (intro conjI)
qed

text \<open>
  Counterexample to C3 as stated, with the key \<^verbatim>\<open>RENDERED:\<close> followed by the URL: an
  entry under that key is not returned (the page is fetched and rendered), and after a
  request on an empty cache there is no entry under that key.
\<close>

theorem rendered_key_is_not_used:
  "fst (get_cached_html (example_env (\<lambda>url. Inr ''one'') no_files 0)
          \<lparr> cache = [\<lparr> item_key = ''RENDERED:'' @ readme_url, item_value = ''<p>old</p>'',
                        item_len = 10, item_stamp = 0, item_expires = 86400 \<rparr>],
            articles = Map.empty, debug = False \<rparr> readme_url)
     = Inr (plain_paragraph ''one'')
   \<and> lookup_item
         (cache (snd (get_cached_html (example_env (\<lambda>url. Inr ''one'') no_files 0)
                        \<lparr> cache = [], articles = Map.empty, debug = False \<rparr> readme_url)))
         (''RENDERED:'' @ readme_url) = None
   \<and> plain_paragraph ''one'' \<noteq> ''<p>old</p>''"
  by (simp add: api_eval Let_def plain_paragraph_def readme_url_def)


text \<open>
  Claim C5 (as the code has it): preload does not check the front matter. For every
  fetched article text that has at least one word and a comment for the tags, the
  article is made and stored and preload goes on to the next slug without an error; a
  title, summary or author for which the source has no comment is \<^verbatim>\<open>undefined\<close> in the
  stored article, and with no comment for the date the stored date is what \<^verbatim>\<open>Date\<close>
  makes of the text \<^verbatim>\<open>undefined 00:00:00\<close>, \<^verbatim>\<open>NaN\<close> when that is no valid date.
\<close>

theorem missing_fields_are_stored:
  assumes fetch: "get_cached_url e st (article_url slug) = (Inr text, st')"
    and count: "words text = Inr n"
    and tags: "''tags'' \<in> set (front_keys text)"
  shows "\<exists>a. make_article (date_time e) slug text = Inr a
           \<and> preload_each e st (slug # slugs) =
               preload_each e (st'\<lparr>articles := (articles st')(slug \<mapsto> a)\<rparr>) slugs
           \<and> (\<forall>field \<in> {''title'', ''summary'', ''author''} - set (front_keys text). a field = None)
           \<and> (''date'' \<notin> set (front_keys text) \<longrightarrow>
                a ''date'' = Some (case date_time e ''undefined 00:00:00'' of
                                     None \<Rightarrow> JNaN | Some ms \<Rightarrow> JNum (ms div 1000)))"
proof -
  let ?init = "[''slug'' \<mapsto> JStr slug, ''words'' \<mapsto> JNum (int n)]"
  from tags obtain v where
    p: "parse_front_matter (date_time e) text ?init =
          Inr ((assign_front_matter text ?init)
                 (''date'' \<mapsto> article_date (date_time e) (assign_front_matter text ?init),
                  ''tags'' \<mapsto> JList (split_tags [] v)))"
    using parse_front_matter_tags by blast
  let ?art = "(assign_front_matter text ?init)
                 (''date'' \<mapsto> article_date (date_time e) (assign_front_matter text ?init),
                  ''tags'' \<mapsto> JList (split_tags [] v))"
  from count p have m: "make_article (date_time e) slug text = Inr ?art"
    by (simp add: make_article_def)
  have plain: "?art field = None"
    if "field \<in> {''title'', ''summary'', ''author''} - set (front_keys text)" for field
  proof -
    from that have f: "field \<in> {''title'', ''summary'', ''author''}"
      by (rule DiffD1)
    from that have missing: "field \<notin> set (front_keys text)"
      by (elim DiffE)
    have "?init field = None" and "field \<noteq> ''date''" and "field \<noteq> ''tags''"
      using plain_field [OF f, of "JStr slug" "JNum (int n)"] by simp_all
    with missing show ?thesis
      by (simp add: assign_front_matter_missing)
  qed
  have date: "?art ''date'' = Some (case date_time e ''undefined 00:00:00'' of
                                     None \<Rightarrow> JNaN | Some ms \<Rightarrow> JNum (ms div 1000))"
    if "''date'' \<notin> set (front_keys text)"
  proof -
    have "date_operand (assign_front_matter text ?init) = ''undefined 00:00:00''"
      using that by (intro date_operand_missing) simp_all
    then show ?thesis
      by (simp add: article_date_def)
  qed
  from fetch m have step: "preload_each e st (slug # slugs) =
      preload_each e (st'\<lparr>articles := (articles st')(slug \<mapsto> ?art)\<rparr>) slugs"
    by simp
  show ?thesis
  proof (intro exI conjI ballI impI)
    show "make_article (date_time e) slug text = Inr ?art"
      by (fact m)
    show "preload_each e st (slug # slugs) =
        preload_each e (st'\<lparr>articles := (articles st')(slug \<mapsto> ?art)\<rparr>) slugs"
      by (fact step)
    show "?art field = None"
      if "field \<in> {''title'', ''summary'', ''author''} - set (front_keys text)" for field
      using that by (rule plain)
    show "?art ''date'' = Some (case date_time e ''undefined 00:00:00'' of
                                     None \<Rightarrow> JNaN | Some ms \<Rightarrow> JNum (ms div 1000))"
      if "''date'' \<notin> set (front_keys text)"
      using that by (rule date)
  qed
qed


text \<open>
  Witness for C5: a source with summary, author and tags and neither title nor date, as
  the only configured article. Preload completes, and the stored article has no title
  and the date \<^verbatim>\<open>NaN\<close>.
\<close>

theorem missing_fields_are_stored_witness:
  "get_cached_url (example_env (\<lambda>url. Inr untitled_source) no_files 0)
      \<lparr> cache = [], articles = Map.empty, debug = False \<rparr> (article_url ''post'')
     = (Inr untitled_source,
        \<lparr> cache = [\<lparr> item_key = article_url ''post'', item_value = untitled_source,
                      item_len = length untitled_source, item_stamp = 0, item_expires = 86400 \<rparr>],
          articles = Map.empty, debug = False \<rparr>)
   \<and> words untitled_source = Inr 1
   \<and> ''tags'' \<in> set (front_keys untitled_source)
   \<and> (\<exists>a. make_article example_getTime ''post'' untitled_source = Inr a
          \<and> preload_each (example_env (\<lambda>url. Inr untitled_source) no_files 0)
                \<lparr> cache = [], articles = Map.empty, debug = False \<rparr> [''post'']
              = (Completed,
                 \<lparr> cache = [\<lparr> item_key = article_url ''post'', item_value = untitled_source,
                      item_len = length untitled_source, item_stamp = 0, item_expires = 86400 \<rparr>],
                   articles = [''post'' \<mapsto> a], debug = False \<rparr>)
          \<and> a ''title'' = None \<and> a ''date'' = Some JNaN)"
proof -
  let ?e = "example_env (\<lambda>url. Inr untitled_source) no_files 0"
  have tags: "''tags'' \<in> set (front_keys untitled_source)"
    by (simp add: untitled_keys)
  have e: "date_time ?e = example_getTime"
    by (simp add: example_env_def)
  from missing_fields_are_stored [OF untitled_fetch untitled_words tags, of "[]"]
  obtain a where a: "make_article (date_time ?e) ''post'' untitled_source = Inr a"
    and step: "preload_each ?e \<lparr> cache = [], articles = Map.empty, debug = False \<rparr> [''post''] =
        preload_each ?e
          (\<lparr> cache = [\<lparr> item_key = article_url ''post'', item_value = untitled_source,
                      item_len = length untitled_source, item_stamp = 0, item_expires = 86400 \<rparr>],
             articles = Map.empty, debug = False \<rparr>
           \<lparr>articles := (articles \<lparr> cache = [\<lparr> item_key = article_url ''post'', item_value = untitled_source,
                      item_len = length untitled_source, item_stamp = 0, item_expires = 86400 \<rparr>],
             articles = Map.empty, debug = False \<rparr>)(''post'' \<mapsto> a)\<rparr>) []"
    and plain: "\<forall>field \<in> {''title'', ''summary'', ''author''} - set (front_keys untitled_source).
                 a field = None"
    and date: "''date'' \<notin> set (front_keys untitled_source) \<longrightarrow>
                a ''date'' = Some (case date_time ?e ''undefined 00:00:00'' of
                                     None \<Rightarrow> JNaN | Some ms \<Rightarrow> JNum (ms div 1000))"
    by blast
  from plain have "a ''title'' = None"
    by (simp add: untitled_keys)
  moreover from date have "a ''date'' = Some JNaN"
    by (simp add: untitled_keys e example_getTime_def)
  moreover from a have "make_article example_getTime ''post'' untitled_source = Inr a"
    by (simp only: e)
  moreover from step have "preload_each ?e \<lparr> cache = [], articles = Map.empty, debug = False \<rparr> [''post'']
              = (Completed,
                 \<lparr> cache = [\<lparr> item_key = article_url ''post'', item_value = untitled_source,
                      item_len = length untitled_source, item_stamp = 0, item_expires = 86400 \<rparr>],
                   articles = [''post'' \<mapsto> a], debug = False \<rparr>)"
    by simp
  ultimately show ?thesis
    using untitled_fetch untitled_words tags by blast
qed

text \<open>
  Counterexample to C5 as stated: with the same source \<^verbatim>\<open>startup\<close> completes without
  error, and the article index holds the article, with no title.
\<close>

theorem untitled_article_is_stored:
  "fst (startup (example_env (\<lambda>url. Inr untitled_source) no_files 0) False [''post'']) = Completed
   \<and> (case articles (snd (startup (example_env (\<lambda>url. Inr untitled_source) no_files 0) False
                            [''post''])) ''post'' of
        None \<Rightarrow> False
      | Some a \<Rightarrow> a ''title'' = None)"
proof -
  let ?e = "example_env (\<lambda>url. Inr untitled_source) no_files 0"
  have e: "date_time ?e = example_getTime"
    by (simp add: example_env_def)
  have "startup ?e False [''post''] =
      (Completed,
       \<lparr> cache = [\<lparr> item_key = article_url ''post'', item_value = untitled_source,
                      item_len = length untitled_source, item_stamp = 0, item_expires = 86400 \<rparr>],
         articles = [''post'' \<mapsto> [''slug'' \<mapsto> JStr ''post'', ''words'' \<mapsto> JNum 1,
             ''summary'' \<mapsto> JStr ''Y'', ''author'' \<mapsto> JStr ''a'', ''tags'' \<mapsto> JStr ''A, B'',
             ''date'' \<mapsto> JNaN, ''tags'' \<mapsto> JList [''A'', ''B'']]],
         debug = False \<rparr>)"
    by (simp add: startup_def preloadBlog_def untitled_fetch e untitled_article)
  then show ?thesis by simp
qed

text \<open>
  Claim C6 (as the code has it): for every blockquote whose content \<^verbatim>\<open>marked\<close> hands to
  the renderer wrapped in paragraph tags, that is as \<^verbatim>\<open><p>\<close>, the marker
  \<^verbatim>\<open>[!KEYWORD]\<close> (a keyword of one or more word characters, in any case), the rest of
  the content, and a final \<^verbatim>\<open></p>\<close>, with white space allowed around the whole, the
  renderer emits the styled block of line 29: its class is the keyword in lower case,
  its icon what the table of line 25 answers for the keyword in lower case (\<open>icon_of\<close>),
  its title the keyword in lower case with a capital first letter, and its body the
  content without the marker and without the white space that follows the marker.
\<close>

theorem marked_paragraph_is_blocknote:
  assumes "kw \<noteq> []" and "list_all is_word kw"
    and "list_all is_space ws" and "list_all is_space ws'"
  shows "blockquote (ws @ ''<p>[!'' @ kw @ '']'' @ rest @ ''</p>'' @ ws') =
           blocknote (map to_lower kw) (icon_of (map to_lower kw)) (ucfirst (map to_lower kw))
             (dropWhile is_space rest)"
proof -
  have "trim (ws @ ''<p>[!'' @ kw @ '']'' @ rest @ ''</p>'' @ ws') =
          ''<p>'' @ (''[!'' @ kw @ '']'' @ rest) @ ''</p>''"
    using trim_padded [OF assms(3,4), of "CHR ''<''" "CHR ''>''" "''p>[!'' @ kw @ '']'' @ rest @ ''</p''"]
    by (simp add: is_space_def)
  then have "unwrap_p (trim (ws @ ''<p>[!'' @ kw @ '']'' @ rest @ ''</p>'' @ ws')) =
          ''[!'' @ kw @ '']'' @ rest"
    by (simp only: unwrap_p_wrapped append_is_Nil_conv list.distinct simp_thms)
  then show ?thesis
    using match_marker_keyword [OF assms(1,2), of rest]
    by (simp only: blockquote_def Let_def option.case prod.case)
qed

text \<open>
  Witness for C6: the example of the specification. For \<^verbatim>\<open>> [!WARNING] Be careful\<close> the
  renderer is called with the paragraph \<^verbatim>\<open><p>[!WARNING] Be careful</p>\<close> and a line
  feed; the block has the title \<^verbatim>\<open>Warning\<close> and the body \<^verbatim>\<open>Be careful\<close>, and the
  marker is nowhere in the output. A second instance has a keyword outside the table,
  \<^verbatim>\<open>Constructor\<close>, for which the lookup answers with an inherited property.
\<close>

theorem marked_paragraph_is_blocknote_witness:
  \<open>''WARNING'' \<noteq> [] \<and> list_all is_word ''WARNING'' \<and> list_all is_space [] \<and> list_all is_space [CHR 0x0A]
   \<and> blockquote (''<p>[!WARNING] Be careful</p>'' @ [CHR 0x0A]) =
       blocknote ''warning'' ''alert-circle'' ''Warning'' ''Be careful''
   \<and> blocknote ''warning'' ''alert-circle'' ''Warning'' ''Be careful'' =
       ''<div class="blocknote warning"><div class="bn_title"><i class="mdi mdi-alert-circle">&nbsp;</i>Warning</div><div class="bn_content">Be careful</div></div>''
   \<and> \<not> sublist ''[!WARNING]'' (blockquote (''<p>[!WARNING] Be careful</p>'' @ [CHR 0x0A]))
   \<and> ''Constructor'' \<noteq> [] \<and> list_all is_word ''Constructor''
   \<and> blockquote ''<p>[!Constructor] x</p>'' =
       ''<div class="blocknote constructor"><div class="bn_title"><i class="mdi mdi-function Object() { [native code] }">&nbsp;</i>Constructor</div><div class="bn_content">x</div></div>''\<close>
proof -
  have kw: "''WARNING'' \<noteq> []" "list_all is_word ''WARNING''"
    by (simp_all add: is_word_def)
  have ws: "list_all is_space []" "list_all is_space [CHR 0x0A]"
    by (simp_all add: is_space_def)
  from marked_paragraph_is_blocknote [OF kw ws, of "'' Be careful''"]
  have b: "blockquote (''<p>[!WARNING] Be careful</p>'' @ [CHR 0x0A]) =
       blocknote ''warning'' ''alert-circle'' ''Warning'' ''Be careful''"
    by (simp add: to_lower_def to_upper_def ucfirst_def icon_of_def icons_def is_space_def)
  have "\<not> sublist ''[!WARNING]'' (blocknote ''warning'' ''alert-circle'' ''Warning'' ''Be careful'')"
    by (simp add: blocknote_def sublist_Cons_right)
  with b kw ws have first: \<open>''WARNING'' \<noteq> [] \<and> list_all is_word ''WARNING'' \<and> list_all is_space []
      \<and> list_all is_space [CHR 0x0A]
      \<and> blockquote (''<p>[!WARNING] Be careful</p>'' @ [CHR 0x0A]) =
          blocknote ''warning'' ''alert-circle'' ''Warning'' ''Be careful''
      \<and> blocknote ''warning'' ''alert-circle'' ''Warning'' ''Be careful'' =
          ''<div class="blocknote warning"><div class="bn_title"><i class="mdi mdi-alert-circle">&nbsp;</i>Warning</div><div class="bn_content">Be careful</div></div>''
      \<and> \<not> sublist ''[!WARNING]'' (blockquote (''<p>[!WARNING] Be careful</p>'' @ [CHR 0x0A]))\<close>
    by (simp add: blocknote_def)
  have kw': "''Constructor'' \<noteq> []" "list_all is_word ''Constructor''"
    by (simp_all add: is_word_def)
  from marked_paragraph_is_blocknote [OF kw' ws(1) ws(1), of "'' x''"]
  have second: \<open>blockquote ''<p>[!Constructor] x</p>'' =
       ''<div class="blocknote constructor"><div class="bn_title"><i class="mdi mdi-function Object() { [native code] }">&nbsp;</i>Constructor</div><div class="bn_content">x</div></div>''\<close>
    by (simp add: to_lower_def to_upper_def ucfirst_def icon_of_def icons_def is_space_def
        blocknote_def)
  from first kw' second show ?thesis
    by - (elim conjE, intro conjI; assumption)
qed

text \<open>
  Counterexample to C6 as stated, for every blockquote whose first line is a marker: a
  blockquote with the lines \<^verbatim>\<open>[!NOTE]\<close> and \<^verbatim>\<open>- item\<close>. Its content is a paragraph and
  a list, so it does not end with \<^verbatim>\<open></p>\<close>; the paragraph tags stay, the marker is not
  found at the start, and the renderer emits a plain blockquote with the marker in it.
\<close>

theorem list_in_blockquote_keeps_marker:
  "blockquote (''<p>[!NOTE]</p>'' @ [CHR 0x0A] @ ''<ul>'' @ [CHR 0x0A] @ ''<li>item</li>''
               @ [CHR 0x0A] @ ''</ul>'' @ [CHR 0x0A]) =
     ''<blockquote><p>[!NOTE]</p>'' @ [CHR 0x0A] @ ''<ul>'' @ [CHR 0x0A] @ ''<li>item</li>''
       @ [CHR 0x0A] @ ''</ul></blockquote>''"
  by (simp add: blockquote_eval)

text \<open>
  Claim C7 (as the code has it): the callback of line 80 assigns the property of every
  match, so the last front-matter comment with a key decides its property. For every
  Markdown source that has at least one word to count and in which the last
  front-matter comment with the key \<^verbatim>\<open>title\<close> has the value \<open>X\<close>, the last with \<^verbatim>\<open>summary\<close>
  the value \<open>Y\<close>, the last with \<^verbatim>\<open>author\<close> the value \<open>a\<close>, the last with \<^verbatim>\<open>date\<close> the
  value \<^verbatim>\<open>2024/01/01\<close> and the last with \<^verbatim>\<open>tags\<close> the value \<^verbatim>\<open>A, B\<close> (keys compared in
  lower case), lines 74 to 84 yield an article with title \<open>X\<close>, summary \<open>Y\<close>, author
  \<open>a\<close>, the tags \<open>A\<close> and \<open>B\<close> in this order, and as date the seconds since the epoch
  that \<^verbatim>\<open>Date\<close> gives for \<^verbatim>\<open>2024/01/01 00:00:00\<close>, midnight in local time (\<open>ms\<close>
  milliseconds, rounded down to seconds). The sources made of the five comments of the
  specification with text free of the comment opener around them are of this kind
  (lemma \<open>example_front_matter\<close>), and so are sources with the comments in another
  order, or with further comments, as long as the last comment with each key is the one
  named.
\<close>

theorem front_matter_round_trip:
  assumes "words md = Inr n"
    and "last_comment md ''title'' = Some ''X''"
    and "last_comment md ''summary'' = Some ''Y''"
    and "last_comment md ''author'' = Some ''a''"
    and "last_comment md ''date'' = Some ''2024/01/01''"
    and "last_comment md ''tags'' = Some ''A, B''"
    and "getTime ''2024/01/01 00:00:00'' = Some ms"
  shows "\<exists>a. make_article getTime slug md = Inr a
           \<and> a ''title'' = Some (JStr ''X'') \<and> a ''summary'' = Some (JStr ''Y'')
           \<and> a ''author'' = Some (JStr ''a'') \<and> a ''date'' = Some (JNum (ms div 1000))
           \<and> a ''tags'' = Some (JList [''A'', ''B''])"
proof -
  let ?init = "[''slug'' \<mapsto> JStr slug, ''words'' \<mapsto> JNum (int n)]"
  let ?a = "assign_front_matter md ?init"
  have title: "?a ''title'' = Some (JStr ''X'')"
    and summary: "?a ''summary'' = Some (JStr ''Y'')"
    and author: "?a ''author'' = Some (JStr ''a'')"
    and date: "?a ''date'' = Some (JStr ''2024/01/01'')"
    and tags: "?a ''tags'' = Some (JStr ''A, B'')"
    using assms(2-6) by (simp_all only: assign_front_matter_last)
  from date have "date_operand ?a = ''2024/01/01 00:00:00''"
    by (simp add: date_operand_def)
  with assms(7) have d: "article_date getTime ?a = JNum (ms div 1000)"
    by (simp add: article_date_def)
  have split: "split_tags [] ''A, B'' = [''A'', ''B'']"
    by (simp add: is_space_def)
  let ?art = "?a(''date'' \<mapsto> JNum (ms div 1000), ''tags'' \<mapsto> JList [''A'', ''B''])"
  from tags d split have "parse_front_matter getTime md ?init = Inr ?art"
    by (simp add: parse_front_matter_def Let_def)
  with assms(1) have "make_article getTime slug md = Inr ?art"
    by (simp add: make_article_def)
  moreover from title have "?art ''title'' = Some (JStr ''X'')" by simp
  moreover from summary have "?art ''summary'' = Some (JStr ''Y'')" by simp
  moreover from author have "?art ''author'' = Some (JStr ''a'')" by simp
  moreover have "?art ''date'' = Some (JNum (ms div 1000))" by simp
  moreover have "?art ''tags'' = Some (JList [''A'', ''B''])" by simp
  ultimately show ?thesis
    by (intro exI conjI)
qed

text \<open>
  Witness for C7: the example of section 8 of the specification followed by a word, and
  a source that has the comments in another order and an earlier title, in a process
  whose local time is UTC.
\<close>

theorem front_matter_round_trip_witness:
  "words round_trip_source = Inr 1
   \<and> map (last_comment round_trip_source) [''title'', ''summary'', ''author'', ''date'', ''tags'']
       = [Some ''X'', Some ''Y'', Some ''a'', Some ''2024/01/01'', Some ''A, B'']
   \<and> words reordered_source = Inr 2
   \<and> map (last_comment reordered_source) [''title'', ''summary'', ''author'', ''date'', ''tags'']
       = [Some ''X'', Some ''Y'', Some ''a'', Some ''2024/01/01'', Some ''A, B'']
   \<and> example_getTime ''2024/01/01 00:00:00'' = Some 1704067200000
   \<and> (\<exists>a. make_article example_getTime ''post'' round_trip_source = Inr a
          \<and> a ''title'' = Some (JStr ''X'') \<and> a ''summary'' = Some (JStr ''Y'')
          \<and> a ''author'' = Some (JStr ''a'') \<and> a ''date'' = Some (JNum 1704067200)
          \<and> a ''tags'' = Some (JList [''A'', ''B'']))
   \<and> (\<exists>a. make_article example_getTime ''post'' reordered_source = Inr a
          \<and> a ''title'' = Some (JStr ''X'') \<and> a ''summary'' = Some (JStr ''Y'')
          \<and> a ''author'' = Some (JStr ''a'') \<and> a ''date'' = Some (JNum 1704067200)
          \<and> a ''tags'' = Some (JList [''A'', ''B'']))"
proof -
  have first: "last_comment round_trip_source ''title'' = Some ''X''"
    "last_comment round_trip_source ''summary'' = Some ''Y''"
    "last_comment round_trip_source ''author'' = Some ''a''"
    "last_comment round_trip_source ''date'' = Some ''2024/01/01''"
    "last_comment round_trip_source ''tags'' = Some ''A, B''"
    by (simp_all add: last_comment_def round_trip_matches to_lower_def)
  have second: "last_comment reordered_source ''title'' = Some ''X''"
    "last_comment reordered_source ''summary'' = Some ''Y''"
    "last_comment reordered_source ''author'' = Some ''a''"
    "last_comment reordered_source ''date'' = Some ''2024/01/01''"
    "last_comment reordered_source ''tags'' = Some ''A, B''"
    by (simp_all add: last_comment_def reordered_matches to_lower_def)
  have date: "example_getTime ''2024/01/01 00:00:00'' = Some 1704067200000"
    by (simp add: example_getTime_def)
  have a: "\<exists>a. make_article example_getTime ''post'' round_trip_source = Inr a
          \<and> a ''title'' = Some (JStr ''X'') \<and> a ''summary'' = Some (JStr ''Y'')
          \<and> a ''author'' = Some (JStr ''a'') \<and> a ''date'' = Some (JNum 1704067200)
          \<and> a ''tags'' = Some (JList [''A'', ''B''])"
    using front_matter_round_trip
      [where md = round_trip_source and getTime = example_getTime and slug = "''post''",
       OF round_trip_words first date]
    by simp
  have b: "\<exists>a. make_article example_getTime ''post'' reordered_source = Inr a
          \<and> a ''title'' = Some (JStr ''X'') \<and> a ''summary'' = Some (JStr ''Y'')
          \<and> a ''author'' = Some (JStr ''a'') \<and> a ''date'' = Some (JNum 1704067200)
          \<and> a ''tags'' = Some (JList [''A'', ''B''])"
    using front_matter_round_trip
      [where md = reordered_source and getTime = example_getTime and slug = "''post''",
       OF reordered_words second date]
    by simp
  from first second have "map (last_comment round_trip_source) [''title'', ''summary'', ''author'', ''date'', ''tags'']
       = [Some ''X'', Some ''Y'', Some ''a'', Some ''2024/01/01'', Some ''A, B'']"
    and "map (last_comment reordered_source) [''title'', ''summary'', ''author'', ''date'', ''tags'']
       = [Some ''X'', Some ''Y'', Some ''a'', Some ''2024/01/01'', Some ''A, B'']"
    by simp_all
  with round_trip_words reordered_words date a b show ?thesis
    by (intro conjI)
qed

text \<open>
  Counterexample to C7 as stated, for every source that contains the five comments: a
  source that contains them and, after them, a second title and a word. Each match
  assigns its property, so the last one stays: the article is made, and its title is
  \<open>Z\<close>.
\<close>

theorem later_title_replaces_title:
  "(case make_article example_getTime ''post''
           (''<!-- Title: X --> <!-- Summary: Y --> <!-- Author: a --> <!-- Date: 2024/01/01 --> <!-- Tags: A, B -->''
              @ '' <!-- Title: Z --> Hello'') of
      Inl ex \<Rightarrow> None
    | Inr a \<Rightarrow> a ''title'') = Some (JStr ''Z'')"
  by (simp add: make_article_def text_eval article_eval comment_eval)

text \<open>
  Claim C8 (as the code counts): for every article text in which at least one word
  character is left for counting, the word count is the number of maximal runs of word
  characters (letters, digits and the underscore) in the text that is left after, in
  this order, every span from a \<^verbatim>\<open><\<close> over at least one character to the first \<^verbatim>\<open>>\<close>
  after it on the same line is cut out, every fenced code block is cut out, and every
  Markdown link is collapsed to its text (\<open>spec_word_runs\<close>).
\<close>

theorem word_count_counts_word_runs:
  "0 < spec_word_runs md \<Longrightarrow> words md = Inr (spec_word_runs md)"
proof -
  assume "0 < spec_word_runs md"
  then have "0 < length (match_words (countable_text md))"
    and "length (match_words (countable_text md)) = spec_word_runs md"
    by (simp_all add: length_match_words countable_text_replace_spans spec_word_runs_def)
  then show ?thesis
    by (cases "match_words (countable_text md)") (simp_all add: words_def)
qed

text \<open>
  Witness for C8: the text of the example in section 8 of the specification, where the
  link is collapsed and four runs are counted; and a text with tags, a fenced code
  block, a link and a comparison, where the span from \<^verbatim>\<open><\<close> to \<^verbatim>\<open>>\<close> in
  \<^verbatim>\<open>a < 3 then b > 2\<close> is cut out like a tag.
\<close>

theorem word_count_counts_word_runs_witness:
  "0 < spec_word_runs ''Hello **world**, [link](http://x) here.''
   \<and> spec_countable_text ''Hello **world**, [link](http://x) here.'' = ''Hello **world**, link here.''
   \<and> words ''Hello **world**, [link](http://x) here.'' = Inr 4
   \<and> 0 < spec_word_runs ''Hello <b>world</b>, [link](http://x) here. ```x = 1``` if a < 3 then b > 2''
   \<and> spec_countable_text ''Hello <b>world</b>, [link](http://x) here. ```x = 1``` if a < 3 then b > 2''
       = ''Hello world, link here.  if a  2''
   \<and> words ''Hello <b>world</b>, [link](http://x) here. ```x = 1``` if a < 3 then b > 2'' = Inr 7"
proof -
  have a: "spec_countable_text ''Hello **world**, [link](http://x) here.'' = ''Hello **world**, link here.''"
    by (simp add: spec_eval)
  then have a': "spec_word_runs ''Hello **world**, [link](http://x) here.'' = 4"
    by (simp add: spec_word_runs_def is_word_def)
  have b: "spec_countable_text ''Hello <b>world</b>, [link](http://x) here. ```x = 1``` if a < 3 then b > 2''
       = ''Hello world, link here.  if a  2''"
    by (simp add: spec_eval)
  then have b': "spec_word_runs ''Hello <b>world</b>, [link](http://x) here. ```x = 1``` if a < 3 then b > 2'' = 7"
    by (simp add: spec_word_runs_def is_word_def)
  from a' have "words ''Hello **world**, [link](http://x) here.'' = Inr 4"
    using word_count_counts_word_runs [of "''Hello **world**, [link](http://x) here.''"] by simp
  moreover from b'
  have "words ''Hello <b>world</b>, [link](http://x) here. ```x = 1``` if a < 3 then b > 2'' = Inr 7"
    using word_count_counts_word_runs
      [of "''Hello <b>world</b>, [link](http://x) here. ```x = 1``` if a < 3 then b > 2''"]
    by simp
  ultimately show ?thesis
    using a a' b b' by simp
qed

text \<open>
  Counterexample to C8 as stated, with whitespace-delimited tokens: the text
  \<^verbatim>\<open>well-known fact\<close> has nothing to strip and two such tokens, and \<^verbatim>\<open>/\w+/g\<close> matches
  three times, the hyphen being no word character.
\<close>

theorem hyphenated_word_counts_twice:
  "words ''well-known fact'' = Inr 3
   \<and> spec_countable_text ''well-known fact'' = ''well-known fact''
   \<and> spec_word_count ''well-known fact'' = 2"
  by (simp add: text_eval spec_eval)

text \<open>
  Claim C9: a request for the page of a known slug fails inside exactly when it is not
  answered from the cache, so that the source of the article is read from upstream (the
  network, or in debug mode the local copy), and upstream answers with an error. Every
  such request is answered \<^verbatim>\<open>404 Not Found\<close>, and the state, the cache with it, is what
  it was before the request: no entry is created.
\<close>

theorem failed_fetch_is_not_found:
  assumes "articles st slug = Some article"
  shows "(fst (get_cached_html e st (article_url slug)) = Inl err \<longleftrightarrow>
            reads_upstream e st (article_url slug)
            \<and> upstream e (debug st) (article_url slug) = Inl err)
         \<and> (reads_upstream e st (article_url slug)
              \<and> upstream e (debug st) (article_url slug) = Inl err \<longrightarrow>
              handle_blog e st slug =
                (\<lparr> status = ''404 Not Found'', headers = [],
                   body = ''Unable to locate the requested file.'' \<rparr>, st))"
proof (intro conjI impI)
  show "fst (get_cached_html e st (article_url slug)) = Inl err \<longleftrightarrow>
      reads_upstream e st (article_url slug) \<and> upstream e (debug st) (article_url slug) = Inl err"
    by (rule get_cached_html_error)
next
  assume "reads_upstream e st (article_url slug)
      \<and> upstream e (debug st) (article_url slug) = Inl err"
  then have miss: "\<not> cache_has (clock e) (cache st) (''MARKED:'' @ article_url slug)"
    and raw: "fst (get_cached_url e st (article_url slug)) = Inl err"
    by (simp_all add: get_cached_url_error reads_upstream_def)
  from raw have "get_cached_url e st (article_url slug) = (Inl err, st)"
    using get_cached_url_error_state [OF raw] by (simp add: prod_eq_iff)
  with miss have "get_cached_html e st (article_url slug) = (Inl err, st)"
    by (simp add: get_cached_html_def)
  with assms show "handle_blog e st slug =
      (\<lparr> status = ''404 Not Found'', headers = [],
         body = ''Unable to locate the requested file.'' \<rparr>, st)"
    by (simp add: handle_blog_def)
qed


text \<open>
  Witness for C9: the known slug \<^verbatim>\<open>post\<close>, an empty cache and a network that answers
  every request with an error.
\<close>

theorem failed_fetch_is_not_found_witness:
  "articles \<lparr> cache = [], articles = [''post'' \<mapsto> [''slug'' \<mapsto> JStr ''post'']], debug = False \<rparr> ''post''
     = Some [''slug'' \<mapsto> JStr ''post'']
   \<and> reads_upstream (example_env (\<lambda>url. Inl RequestError) no_files 0)
         \<lparr> cache = [], articles = [''post'' \<mapsto> [''slug'' \<mapsto> JStr ''post'']], debug = False \<rparr>
         (article_url ''post'')
   \<and> upstream (example_env (\<lambda>url. Inl RequestError) no_files 0) False (article_url ''post'')
       = Inl RequestError
   \<and> fst (get_cached_html (example_env (\<lambda>url. Inl RequestError) no_files 0)
            \<lparr> cache = [], articles = [''post'' \<mapsto> [''slug'' \<mapsto> JStr ''post'']], debug = False \<rparr>
            (article_url ''post''))
       = Inl RequestError
   \<and> handle_blog (example_env (\<lambda>url. Inl RequestError) no_files 0)
         \<lparr> cache = [], articles = [''post'' \<mapsto> [''slug'' \<mapsto> JStr ''post'']], debug = False \<rparr>
         ''post''
       = (\<lparr> status = ''404 Not Found'', headers = [],
            body = ''Unable to locate the requested file.'' \<rparr>,
          \<lparr> cache = [], articles = [''post'' \<mapsto> [''slug'' \<mapsto> JStr ''post'']], debug = False \<rparr>)"
proof -
  let ?e = "example_env (\<lambda>url. Inl RequestError) no_files 0"
  let ?st = "\<lparr> cache = [], articles = [''post'' \<mapsto> [''slug'' \<mapsto> JStr ''post'']], debug = False \<rparr>"
  have known: "articles ?st ''post'' = Some [''slug'' \<mapsto> JStr ''post'']"
    by simp
  have reads: "reads_upstream ?e ?st (article_url ''post'')"
    by (simp add: reads_upstream_def cache_has_def lookup_item_def)
  have err: "upstream ?e (debug ?st) (article_url ''post'') = Inl RequestError"
    by (simp add: upstream_def example_env_def)
  note w = failed_fetch_is_not_found [OF known, of ?e RequestError]
  from w reads err have failed: "fst (get_cached_html ?e ?st (article_url ''post'')) = Inl RequestError"
    by blast
  from w reads err have not_found: "handle_blog ?e ?st ''post'' =
      (\<lparr> status = ''404 Not Found'', headers = [],
         body = ''Unable to locate the requested file.'' \<rparr>, ?st)"
    by blast
  from err have err': "upstream ?e False (article_url ''post'') = Inl RequestError"
    by simp
  from known reads err' failed not_found show ?thesis
    by (intro conjI)
qed

text \<open>
  Claim C10: there are fetched article texts on which the word count of preload throws:
  every text in which no word character is left after the replacements of line 76, the
  empty text among them. The match yields \<^verbatim>\<open>null\<close>, reading its length throws a
  \<^verbatim>\<open>TypeError\<close> inside the fetch callback, no article is made, and preload ends with
  this exception instead of passing an error to its callback.
\<close>

theorem wordless_text_throws:
  assumes "get_cached_url e st (article_url slug) = (Inr text, st')"
    and "list_all (\<lambda>c. \<not> is_word c) (countable_text text)"
  shows "words text = Inl TypeError
         \<and> make_article (date_time e) slug text = Inl TypeError
         \<and> preload_each e st (slug # slugs) = (Thrown TypeError, st')"
proof -
  from assms(2) have "match_words (countable_text text) = []"
    by (rule match_words_empty)
  then have w: "words text = Inl TypeError"
    by (simp add: words_def)
  then have m: "make_article (date_time e) slug text = Inl TypeError"
    by (simp add: make_article_def)
  from assms(1) m have "preload_each e st (slug # slugs) = (Thrown TypeError, st')"
    by simp
  with w m show ?thesis by simp
qed

text \<open>
  Witness for C10: the empty text, as the answer of the network for the first of two
  configured slugs.
\<close>

theorem wordless_text_throws_witness:
  "get_cached_url (example_env (\<lambda>url. Inr '''') no_files 0)
      \<lparr> cache = [], articles = Map.empty, debug = False \<rparr> (article_url ''post'')
     = (Inr '''',
        \<lparr> cache = [\<lparr> item_key = article_url ''post'', item_value = '''', item_len = 0,
                      item_stamp = 0, item_expires = 86400 \<rparr>],
          articles = Map.empty, debug = False \<rparr>)
   \<and> list_all (\<lambda>c. \<not> is_word c) (countable_text '''')
   \<and> words '''' = Inl TypeError
   \<and> fst (preload_each (example_env (\<lambda>url. Inr '''') no_files 0)
            \<lparr> cache = [], articles = Map.empty, debug = False \<rparr> [''post'', ''other''])
       = Thrown TypeError"
proof -
  let ?e = "example_env (\<lambda>url. Inr '''') no_files 0"
  let ?st = "\<lparr> cache = [], articles = Map.empty, debug = False \<rparr>"
  let ?st' = "\<lparr> cache = [\<lparr> item_key = article_url ''post'', item_value = '''', item_len = 0,
                      item_stamp = 0, item_expires = 86400 \<rparr>],
          articles = Map.empty, debug = False \<rparr>"
  have fetch: "get_cached_url ?e ?st (article_url ''post'') = (Inr '''', ?st')"
    by (simp add: api_eval)
  have none: "list_all (\<lambda>c. \<not> is_word c) (countable_text '''')"
    by (simp add: countable_text_def)
  from wordless_text_throws [OF fetch none, of "[''other'']"] fetch none
  show ?thesis by simp
qed

end
